theory Spec2Isabelle
  imports Complex_Main "HOL-Library.AList"
begin

section \<open>JavaScript values handled by lokiservice.js\<close>

text \<open>
  The service exchanges plain data with its host: every argument of an export is a
  JavaScript value that came through JSON, and every record is an object whose own
  enumerable properties are kept in insertion order. Numbers are modelled as exact
  rationals (floating-point rounding and NaN are outside the model). An object is an
  association list; a property read takes the first entry of a key, a \<open>delete\<close>
  removes the key, an assignment keeps the position of an existing key and appends a new
  one. Property names are ordinary data keys: the accessor \<open>__proto__\<close> and the
  integer-like keys that JavaScript enumerates first are not modelled.
\<close>

datatype json =
    JUndefined
  | JNull
  | JBool bool
  | JNum rat
  | JStr string
  | JArr "json list"
  | JObj "(string \<times> json) list"

text \<open>What the code can throw. \<open>SyntaxError\<close> is JSON.parse's, \<open>TypeError\<close> a
  member access on null or undefined, a call of a non-function, or Object.assign on
  null; \<open>RequireError\<close> is a \<open>require\<close> that finds no module; \<open>Thrown\<close> is an
  exception raised inside a collaborator (the initializer or the store).\<close>

datatype error = SyntaxError | TypeError | RequireError | Thrown string

text \<open>\<open>typeof v === "string"\<close>.\<close>

fun isString :: "json \<Rightarrow> bool" where
  "isString (JStr s) = True"
| "isString v = False"

text \<open>The truth value of \<open>v\<close> in a condition (\<open>v ? a : b\<close>, \<open>if (v)\<close>, \<open>!v\<close>).\<close>

fun truthy :: "json \<Rightarrow> bool" where
  "truthy JUndefined = False"
| "truthy JNull = False"
| "truthy (JBool b) = b"
| "truthy (JNum n) = (n \<noteq> 0)"
| "truthy (JStr s) = (s \<noteq> [])"
| "truthy (JArr xs) = True"
| "truthy (JObj kvs) = True"

text \<open>\<open>v === null || v === undefined\<close>: a member access on such a value throws.\<close>

fun nullish :: "json \<Rightarrow> bool" where
  "nullish JUndefined = True"
| "nullish JNull = True"
| "nullish v = False"

text \<open>\<open>obj.name\<close> for the names the service reads (\<open>$loki\<close>, \<open>meta\<close>,
  \<open>hasOwnProperty\<close>): none of them is an index or a built-in own property of an array
  or a primitive, so only an object can hold one.\<close>

fun ownProp :: "json \<Rightarrow> string \<Rightarrow> json option" where
  "ownProp (JObj kvs) k = map_of kvs k"
| "ownProp v k = None"

definition getProp :: "json \<Rightarrow> string \<Rightarrow> json" where
  "getProp v k = (case ownProp v k of None \<Rightarrow> JUndefined | Some x \<Rightarrow> x)"

text \<open>\<open>delete obj.name\<close>.\<close>

fun deleteProp :: "string \<Rightarrow> json \<Rightarrow> json" where
  "deleteProp k (JObj kvs) = JObj (AList.delete k kvs)"
| "deleteProp k v = v"

text \<open>\<open>obj.hasOwnProperty(name)\<close>: the method is inherited from Object.prototype
  unless the object has an own property of that name; data that came through JSON holds
  no function, so calling a shadowed \<open>hasOwnProperty\<close> is a TypeError, as is the call
  on null or undefined.\<close>

definition hasOwnProperty :: "json \<Rightarrow> string \<Rightarrow> error + bool" where
  "hasOwnProperty obj k =
     (if nullish obj then Inl TypeError
      else (case ownProp obj ''hasOwnProperty'' of
              Some f \<Rightarrow> Inl TypeError
            | None \<Rightarrow> Inr (ownProp obj k \<noteq> None)))"

text \<open>The decimal name of an array index or of a character position.\<close>

definition digit :: "nat \<Rightarrow> char" where
  "digit d = ''0123456789'' ! d"

fun decimal :: "nat \<Rightarrow> string" where
  "decimal n = (if n < 10 then [digit n] else decimal (n div 10) @ [digit (n mod 10)])"

declare decimal.simps [simp del]

text \<open>The own enumerable properties Object.assign copies from a source: those of an
  object, the elements of an array under their indices, the characters of a string
  under their positions, and nothing for a number, a boolean, null or undefined.\<close>

fun ownEnumerable :: "json \<Rightarrow> (string \<times> json) list" where
  "ownEnumerable (JObj kvs) = kvs"
| "ownEnumerable (JArr xs) = zip (map decimal [0..<length xs]) xs"
| "ownEnumerable (JStr s) = zip (map decimal [0..<length s]) (map (\<lambda>c. JStr [c]) s)"
| "ownEnumerable v = []"

text \<open>\<open>Object.assign(doc, obj)\<close> on an existing document: each property of the
  source is assigned in turn.\<close>

definition assign :: "(string \<times> json) list \<Rightarrow> json \<Rightarrow> (string \<times> json) list" where
  "assign doc obj = fold (\<lambda>(k, v) d. AList.update k v d) (ownEnumerable obj) doc"

section \<open>Request statistics\<close>

text \<open>The seven statistic names of \<open>requestStats\<close>: \<open>stats[statName + "Requests"]\<close>
  and \<open>stats[statName + "Time"]\<close> are the entries of \<open>requests\<close> and \<open>times\<close> at
  that name. Counters are natural numbers (a JavaScript number counts exactly up to
  \<open>2^53\<close>) and times are exact millisecond values.\<close>

datatype statName =
  GetStat | FindStat | TransformStat | DynamicViewStat | InsertStat | UpdateStat | RemoveStat

record requestStats =
  totalRequests :: nat
  totalTime :: rat
  requests :: "statName \<Rightarrow> nat"
  times :: "statName \<Rightarrow> rat"

text \<open>The literal every new registry entry (lines 88-105) and the global bucket
  (lines 36-53) start from.\<close>

definition zeroStats :: requestStats where
  "zeroStats = \<lparr>totalRequests = 0, totalTime = 0, requests = (\<lambda>n. 0), times = (\<lambda>n. 0)\<rparr>"

text \<open>The four updates stopTiming applies to one bucket (lines 328-331 and 333-336).\<close>

definition addRequest :: "statName \<Rightarrow> rat \<Rightarrow> requestStats \<Rightarrow> requestStats" where
  "addRequest n totalMS st =
     st\<lparr>totalRequests := totalRequests st + 1,
        totalTime := totalTime st + totalMS,
        requests := (requests st)(n := requests st n + 1),
        times := (times st)(n := times st n + totalMS)\<rparr>"

section \<open>The collaborators\<close>

text \<open>
  The service calls four things it does not define: \<open>require(serviceName).init\<close> (the
  initializer), the store the initializer hands back (LokiJS), \<open>JSON\<close> and
  \<open>process.hrtime\<close>. They are parameters of the model, collected in one record, and
  every theorem holds for all of them.

  An initializer either throws, or constructs a store and calls back before it returns,
  or constructs it and calls back later (LokiJS's \<open>autoload\<close> reads the file
  asynchronously). The store it passes may be null. What it does may depend on the file
  name and on how many times initializers were invoked before.
\<close>

datatype 'db initOutcome = InitThrows error | InitSync "'db option" | InitAsync "'db option"

text \<open>
  \<^item> \<open>hrtimeMS n\<close> is \<open>t[0] * 1e3 + t[1] / 1e6\<close> for the \<open>n\<close>-th reading \<open>t\<close> of
    process.hrtime.
  \<^item> \<open>jsonParse v\<close> is \<open>JSON.parse(v)\<close>, None when it throws SyntaxError.
  \<^item> \<open>hasCollection db c\<close> says that \<open>db.getCollection(c)\<close> is not null, and
    \<open>hasDynamicView db c v\<close> the same of \<open>getDynamicView(v)\<close> on that collection.
  \<^item> \<open>collGet\<close> is the collection's \<open>get\<close>: a document or null (None).
  \<^item> \<open>collPoke db c id fields\<close> is the store after the document that \<open>get(id)\<close>
    returned has been overwritten in place with \<open>fields\<close> (the identity for a store
    that hands out clones).
  \<^item> \<open>collInsert\<close>, \<open>collUpdate\<close> and \<open>collRemove\<close> return their result or throw,
    and the store as they leave it.
  \<^item> \<open>collChain db c transform params\<close> is \<open>chain(transform, params)\<close>: the chain
    result as JSON.stringify sees it, and what its \<open>data()\<close> returns.
  \<^item> \<open>viewBranch db c v name params raw\<close> is
    \<open>branchResultset(name, params).data()\<close> of the view when \<open>raw\<close> is None and
    \<open>branchResultset(name, params).transform(raw).data()\<close> otherwise.
  \<^item> \<open>dbField db name\<close> reads a property of the store object and
    \<open>collectionInfo db\<close> is the list instanceStats builds from \<open>db.collections\<close>.
\<close>

record 'db world =
  requireInit :: "string \<Rightarrow> (string \<Rightarrow> nat \<Rightarrow> 'db initOutcome) option"
  hrtimeMS :: "nat \<Rightarrow> rat"
  jsonParse :: "json \<Rightarrow> json option"
  jsonStringify :: "json \<Rightarrow> string"
  parseInt10 :: "string \<Rightarrow> json"
  hasCollection :: "'db \<Rightarrow> string \<Rightarrow> bool"
  collGet :: "'db \<Rightarrow> string \<Rightarrow> json \<Rightarrow> error + (string \<times> json) list option"
  collPoke :: "'db \<Rightarrow> string \<Rightarrow> json \<Rightarrow> (string \<times> json) list \<Rightarrow> 'db"
  collFind :: "'db \<Rightarrow> string \<Rightarrow> json \<Rightarrow> error + json"
  collInsert :: "'db \<Rightarrow> string \<Rightarrow> json \<Rightarrow> (error + json) \<times> 'db"
  collUpdate :: "'db \<Rightarrow> string \<Rightarrow> json \<Rightarrow> (error + json) \<times> 'db"
  collRemove :: "'db \<Rightarrow> string \<Rightarrow> json \<Rightarrow> (error + json) \<times> 'db"
  collChain :: "'db \<Rightarrow> string \<Rightarrow> json \<Rightarrow> json \<Rightarrow> error + (json \<times> (error + json))"
  hasDynamicView :: "'db \<Rightarrow> string \<Rightarrow> string \<Rightarrow> bool"
  viewData :: "'db \<Rightarrow> string \<Rightarrow> string \<Rightarrow> error + json"
  viewBranch :: "'db \<Rightarrow> string \<Rightarrow> string \<Rightarrow> json \<Rightarrow> json \<Rightarrow> json option \<Rightarrow> error + json"
  dbClose :: "'db \<Rightarrow> error + 'db"
  dbField :: "'db \<Rightarrow> string \<Rightarrow> json"
  collectionInfo :: "'db \<Rightarrow> error + json list"

section \<open>The operations, as the callbacks passed to getDatabase\<close>

text \<open>
  Each \<open>process...\<close> function hands getDatabase a callback that receives the store
  \<open>db\<close> (possibly null), works on it and passes the serialized result on. The callback
  is modelled as a function from the store to what it throws or passes on, and the store
  as it leaves it.
\<close>

type_synonym 'db outcome = "(error + string) \<times> 'db option"

text \<open>\<open>db.getCollection(collection).m(...)\<close>: a TypeError when \<open>db\<close> is null or the
  collection does not exist.\<close>

definition withCollection ::
  "'db world \<Rightarrow> 'db option \<Rightarrow> string \<Rightarrow> ('db \<Rightarrow> 'db outcome) \<Rightarrow> 'db outcome" where
  "withCollection w dbo collection f =
     (case dbo of
        None \<Rightarrow> (Inl TypeError, None)
      | Some db \<Rightarrow> if hasCollection w db collection then f db else (Inl TypeError, Some db))"

text \<open>\<open>if (typeof x === "string") x = JSON.parse(x)\<close>.\<close>

definition parseIfString :: "'db world \<Rightarrow> json \<Rightarrow> error + json" where
  "parseIfString w x =
     (if isString x
      then (case jsonParse w x of None \<Rightarrow> Inl SyntaxError | Some v \<Rightarrow> Inr v)
      else Inr x)"

text \<open>\<open>x ? JSON.parse(x) : undefined\<close>.\<close>

definition parseIfTruthy :: "'db world \<Rightarrow> json \<Rightarrow> error + json" where
  "parseIfTruthy w x =
     (if truthy x
      then (case jsonParse w x of None \<Rightarrow> Inl SyntaxError | Some v \<Rightarrow> Inr v)
      else Inr JUndefined)"

text \<open>What JSON.stringify is given for the result of the collection's \<open>get\<close>.\<close>

definition docJson :: "(string \<times> json) list option \<Rightarrow> json" where
  "docJson d = (case d of None \<Rightarrow> JNull | Some doc \<Rightarrow> JObj doc)"

text \<open>processGet, lines 112-120.\<close>

definition processGet :: "'db world \<Rightarrow> string \<Rightarrow> json \<Rightarrow> 'db option \<Rightarrow> 'db outcome" where
  "processGet w collection docId dbo =
     (let id' = (case docId of JStr s \<Rightarrow> parseInt10 w s | _ \<Rightarrow> docId) in
      withCollection w dbo collection (\<lambda>db.
        case collGet w db collection id' of
          Inl e \<Rightarrow> (Inl e, Some db)
        | Inr result \<Rightarrow> (Inr (jsonStringify w (docJson result)), Some db)))"

text \<open>processFind, lines 130-138.\<close>

definition processFind :: "'db world \<Rightarrow> string \<Rightarrow> json \<Rightarrow> 'db option \<Rightarrow> 'db outcome" where
  "processFind w collection query dbo =
     (case parseIfString w query of
        Inl e \<Rightarrow> (Inl e, dbo)
      | Inr query' \<Rightarrow>
          withCollection w dbo collection (\<lambda>db.
            case collFind w db collection query' of
              Inl e \<Rightarrow> (Inl e, Some db)
            | Inr result \<Rightarrow> (Inr (jsonStringify w result), Some db)))"

text \<open>The record processInsert passes to the collection's \<open>insert\<close> (lines 150-161):
  parsed when it is a string, without a \<open>$loki\<close> that is \<open>0\<close>, without \<open>meta\<close>.\<close>

definition insertPayload :: "'db world \<Rightarrow> json \<Rightarrow> error + json" where
  "insertPayload w obj =
     (case parseIfString w obj of
        Inl e \<Rightarrow> Inl e
      | Inr obj1 \<Rightarrow>
          if nullish obj1 then Inl TypeError
          else
            (let obj2 = (if getProp obj1 ''$loki'' = JNum 0 then deleteProp ''$loki'' obj1 else obj1) in
             case hasOwnProperty obj2 ''meta'' of
               Inl e \<Rightarrow> Inl e
             | Inr has \<Rightarrow> Inr (if has then deleteProp ''meta'' obj2 else obj2)))"

text \<open>processInsert, lines 149-166.\<close>

definition processInsert :: "'db world \<Rightarrow> string \<Rightarrow> json \<Rightarrow> 'db option \<Rightarrow> 'db outcome" where
  "processInsert w collection obj dbo =
     (case insertPayload w obj of
        Inl e \<Rightarrow> (Inl e, dbo)
      | Inr obj' \<Rightarrow>
          withCollection w dbo collection (\<lambda>db.
            case collInsert w db collection obj' of
              (Inl e, db') \<Rightarrow> (Inl e, Some db')
            | (Inr result, db') \<Rightarrow> (Inr (jsonStringify w result), Some db')))"

text \<open>The delta processUpdate merges onto the existing document (lines 178-185):
  parsed when it is a string, without \<open>meta\<close>.\<close>

definition updatePayload :: "'db world \<Rightarrow> json \<Rightarrow> error + json" where
  "updatePayload w obj =
     (case parseIfString w obj of
        Inl e \<Rightarrow> Inl e
      | Inr obj1 \<Rightarrow>
          (case hasOwnProperty obj1 ''meta'' of
             Inl e \<Rightarrow> Inl e
           | Inr has \<Rightarrow> Inr (if has then deleteProp ''meta'' obj1 else obj1)))"

text \<open>processUpdate, lines 177-197. \<open>doc\<close> is the stored document itself unless the
  store clones, so Object.assign already changes the store (\<open>collPoke\<close>) before
  \<open>update\<close> is called; Object.assign on null is a TypeError.\<close>

definition processUpdate :: "'db world \<Rightarrow> string \<Rightarrow> json \<Rightarrow> 'db option \<Rightarrow> 'db outcome" where
  "processUpdate w collection obj dbo =
     (case updatePayload w obj of
        Inl e \<Rightarrow> (Inl e, dbo)
      | Inr obj' \<Rightarrow>
          withCollection w dbo collection (\<lambda>db.
            case collGet w db collection (getProp obj' ''$loki'') of
              Inl e \<Rightarrow> (Inl e, Some db)
            | Inr None \<Rightarrow> (Inl TypeError, Some db)
            | Inr (Some doc) \<Rightarrow>
                (let merged = assign doc obj';
                     db1 = collPoke w db collection (getProp obj' ''$loki'') merged in
                 case collUpdate w db1 collection (JObj merged) of
                   (Inl e, db2) \<Rightarrow> (Inl e, Some db2)
                 | (Inr result, db2) \<Rightarrow> (Inr (jsonStringify w result), Some db2))))"

text \<open>processRemove, lines 208-218.\<close>

definition processRemove :: "'db world \<Rightarrow> string \<Rightarrow> json \<Rightarrow> 'db option \<Rightarrow> 'db outcome" where
  "processRemove w collection obj dbo =
     (case parseIfString w obj of
        Inl e \<Rightarrow> (Inl e, dbo)
      | Inr obj' \<Rightarrow>
          withCollection w dbo collection (\<lambda>db.
            case collRemove w db collection obj' of
              (Inl e, db') \<Rightarrow> (Inl e, Some db')
            | (Inr val, db') \<Rightarrow> (Inr (jsonStringify w (JObj [(''val'', val)])), Some db')))"

text \<open>processTransform, the callback of lines 240-248: \<open>transformParams\<close> is
  already parsed and \<open>dataInvoke\<close> already defaulted (lines 232-238).\<close>

definition processTransform ::
  "'db world \<Rightarrow> string \<Rightarrow> json \<Rightarrow> json \<Rightarrow> json \<Rightarrow> 'db option \<Rightarrow> 'db outcome" where
  "processTransform w collection transform transformParams dataInvoke dbo =
     withCollection w dbo collection (\<lambda>db.
       case collChain w db collection transform transformParams of
         Inl e \<Rightarrow> (Inl e, Some db)
       | Inr (chain, chainData) \<Rightarrow>
           if truthy dataInvoke
           then (case chainData of
                   Inl e \<Rightarrow> (Inl e, Some db)
                 | Inr result \<Rightarrow> (Inr (jsonStringify w result), Some db))
           else (Inr (jsonStringify w chain), Some db))"

text \<open>\<open>getDynamicView(viewname)\<close> on the collection, then a method call on the view:
  a TypeError when the view does not exist.\<close>

definition withView ::
  "'db world \<Rightarrow> 'db option \<Rightarrow> string \<Rightarrow> string \<Rightarrow> ('db \<Rightarrow> error + json) \<Rightarrow> 'db outcome" where
  "withView w dbo collection viewname f =
     withCollection w dbo collection (\<lambda>db.
       if hasDynamicView w db collection viewname
       then (case f db of
               Inl e \<Rightarrow> (Inl e, Some db)
             | Inr result \<Rightarrow> (Inr (jsonStringify w result), Some db))
       else (Inl TypeError, Some db))"

text \<open>processDynamicView, lines 262-277. Line 270 passes the string literal
  \<open>"transformName"\<close> to branchResultset, not the parameter of that name.\<close>

definition processDynamicView ::
  "'db world \<Rightarrow> string \<Rightarrow> string \<Rightarrow> json \<Rightarrow> json \<Rightarrow> 'db option \<Rightarrow> 'db outcome" where
  "processDynamicView w collection viewname transformName transformParams dbo =
     (case parseIfTruthy w transformParams of
        Inl e \<Rightarrow> (Inl e, dbo)
      | Inr params \<Rightarrow>
          withView w dbo collection viewname (\<lambda>db.
            if truthy transformName
            then viewBranch w db collection viewname (JStr ''transformName'') params None
            else viewData w db collection viewname))"

text \<open>processDynamicViewTransform, the callback of lines 306-312: \<open>rawTransform\<close> is
  already parsed, \<open>transformName\<close> and \<open>transformParams\<close> are as lines 298-304 left
  them.\<close>

definition processDynamicViewTransform ::
  "'db world \<Rightarrow> string \<Rightarrow> string \<Rightarrow> json \<Rightarrow> json \<Rightarrow> json \<Rightarrow> 'db option \<Rightarrow> 'db outcome" where
  "processDynamicViewTransform w collection viewname transformName transformParams rawTransform dbo =
     withView w dbo collection viewname (\<lambda>db.
       viewBranch w db collection viewname transformName transformParams (Some rawTransform))"

section \<open>Requests and their continuations\<close>

text \<open>The data operations of \<open>module.exports\<close> (lines 344-433), each with
  \<open>serviceName\<close>, \<open>filename\<close>, \<open>collection\<close> and its own arguments.\<close>

datatype request =
    Get string string string json
  | Find string string string json
  | Insert string string string json
  | Update string string string json
  | Remove string string string json
  | Transform string string string json json json
  | TransformRaw string string string json json json
  | DynamicView string string string string json json
  | DynamicViewTransform string string string string json json json

fun serviceOf :: "request \<Rightarrow> string" where
  "serviceOf (Get s f c i) = s"
| "serviceOf (Find s f c q) = s"
| "serviceOf (Insert s f c obj) = s"
| "serviceOf (Update s f c obj) = s"
| "serviceOf (Remove s f c obj) = s"
| "serviceOf (Transform s f c t p d) = s"
| "serviceOf (TransformRaw s f c t p d) = s"
| "serviceOf (DynamicView s f c v t p) = s"
| "serviceOf (DynamicViewTransform s f c v t p r) = s"

fun fileOf :: "request \<Rightarrow> string" where
  "fileOf (Get s f c i) = f"
| "fileOf (Find s f c q) = f"
| "fileOf (Insert s f c obj) = f"
| "fileOf (Update s f c obj) = f"
| "fileOf (Remove s f c obj) = f"
| "fileOf (Transform s f c t p d) = f"
| "fileOf (TransformRaw s f c t p d) = f"
| "fileOf (DynamicView s f c v t p) = f"
| "fileOf (DynamicViewTransform s f c v t p r) = f"

text \<open>The name each export gives startTiming and stopTiming.\<close>

fun statOf :: "request \<Rightarrow> statName" where
  "statOf (Get s f c i) = GetStat"
| "statOf (Find s f c q) = FindStat"
| "statOf (Insert s f c obj) = InsertStat"
| "statOf (Update s f c obj) = UpdateStat"
| "statOf (Remove s f c obj) = RemoveStat"
| "statOf (Transform s f c t p d) = TransformStat"
| "statOf (TransformRaw s f c t p d) = TransformStat"
| "statOf (DynamicView s f c v t p) = DynamicViewStat"
| "statOf (DynamicViewTransform s f c v t p r) = DynamicViewStat"

text \<open>An initializer may call back after the export has returned, so the callback a
  request hands getDatabase is kept as data: which \<open>process...\<close> callback it is, with
  the values its closure holds.\<close>

datatype cont =
    GetK string json
  | FindK string json
  | InsertK string json
  | UpdateK string json
  | RemoveK string json
  | TransformK string json json json
  | DynamicViewK string string json json
  | DynamicViewTransformK string string json json json

text \<open>Lines 232-238 of processTransform, before getDatabase is called.\<close>

definition transformCont :: "'db world \<Rightarrow> string \<Rightarrow> json \<Rightarrow> json \<Rightarrow> json \<Rightarrow> error + cont" where
  "transformCont w c transform transformParams dataInvoke =
     (case parseIfTruthy w transformParams of
        Inl e \<Rightarrow> Inl e
      | Inr params \<Rightarrow>
          Inr (TransformK c transform params
                 (if dataInvoke = JUndefined \<or> dataInvoke = JNull then JBool True else dataInvoke)))"

text \<open>What a request does between startTiming and getDatabase. transformRaw parses
  the transform (line 406); processDynamicViewTransform falls back to
  processDynamicView without a raw transform (line 291), parses it otherwise
  (line 296), and clears \<open>transformName\<close> when it is falsy, leaving
  \<open>transformParams\<close> as given (line 300 assigns another variable).\<close>

fun prepare :: "'db world \<Rightarrow> request \<Rightarrow> error + cont" where
  "prepare w (Get s f c i) = Inr (GetK c i)"
| "prepare w (Find s f c q) = Inr (FindK c q)"
| "prepare w (Insert s f c obj) = Inr (InsertK c obj)"
| "prepare w (Update s f c obj) = Inr (UpdateK c obj)"
| "prepare w (Remove s f c obj) = Inr (RemoveK c obj)"
| "prepare w (Transform s f c t p d) = transformCont w c t p d"
| "prepare w (TransformRaw s f c t p d) =
     (case jsonParse w t of
        None \<Rightarrow> Inl SyntaxError
      | Some rawTransform \<Rightarrow> transformCont w c rawTransform p d)"
| "prepare w (DynamicView s f c v t p) = Inr (DynamicViewK c v t p)"
| "prepare w (DynamicViewTransform s f c v t p r) =
     (if \<not> truthy r then Inr (DynamicViewK c v t p)
      else (case jsonParse w r of
              None \<Rightarrow> Inl SyntaxError
            | Some rawTransform \<Rightarrow>
                if \<not> truthy t then Inr (DynamicViewTransformK c v JUndefined p rawTransform)
                else (case parseIfTruthy w p of
                        Inl e \<Rightarrow> Inl e
                      | Inr params \<Rightarrow> Inr (DynamicViewTransformK c v t params rawTransform))))"

text \<open>Running the kept callback on the store.\<close>

fun runCont :: "'db world \<Rightarrow> cont \<Rightarrow> 'db option \<Rightarrow> 'db outcome" where
  "runCont w (GetK c i) dbo = processGet w c i dbo"
| "runCont w (FindK c q) dbo = processFind w c q dbo"
| "runCont w (InsertK c obj) dbo = processInsert w c obj dbo"
| "runCont w (UpdateK c obj) dbo = processUpdate w c obj dbo"
| "runCont w (RemoveK c obj) dbo = processRemove w c obj dbo"
| "runCont w (TransformK c t p d) dbo = processTransform w c t p d dbo"
| "runCont w (DynamicViewK c v t p) dbo = processDynamicView w c v t p dbo"
| "runCont w (DynamicViewTransformK c v t p r) dbo = processDynamicViewTransform w c v t p r dbo"

section \<open>The service state\<close>

text \<open>
  A store is a JavaScript object: it has an identity, which stays, and contents, which
  the operations change. Every object an initializer constructs gets the next identity.
  A registry entry is the object literal of lines 86-106.
\<close>

record 'db handle =
  ident :: nat
  content :: 'db

record 'db registryEntry =
  dbInstance :: "'db handle option"
  stats :: requestStats

text \<open>Who a completion callback belongs to: a data request, an instanceStats call or
  a shutdown call.\<close>

datatype export = Data request | InstanceStats string string | Shutdown

text \<open>
  The module's variables: \<open>databaseRegistry\<close> (a hash of hashes, in insertion
  order), \<open>serviceStats.requestStats\<close> and \<open>started\<close>. The other fields record
  what the module did to its surroundings: how many times process.hrtime was read, how
  many stores were constructed, the \<open>init\<close> calls made (service, file, and whether
  the call returned rather than threw), the
  initializers that have not called back yet (with the request that waits, its
  callback, and the store under construction), the store identity each getDatabase
  callback received, the \<open>close\<close> calls made, and the calls of the hosts' completion
  callbacks with their two arguments.
\<close>

record 'db service =
  databaseRegistry :: "(string \<times> (string \<times> 'db registryEntry) list) list"
  serviceStats :: requestStats
  started :: rat
  hrReads :: nat
  constructed :: nat
  initCalls :: "(string \<times> string \<times> bool) list"
  pendingInits :: "(request \<times> cont \<times> 'db handle option) list"
  observed :: "(request \<times> nat option) list"
  closeCalls :: "(string \<times> string) list"
  callbacks :: "(export \<times> json \<times> json) list"

text \<open>The module as it is loaded.\<close>

definition freshService :: "'db service" where
  "freshService =
     \<lparr>databaseRegistry = [], serviceStats = zeroStats, started = 0, hrReads = 0,
      constructed = 0, initCalls = [], pendingInits = [], observed = [], closeCalls = [],
      callbacks = []\<rparr>"

text \<open>\<open>databaseRegistry[serviceName][filename]\<close>, read and written.\<close>

definition lookupEntry ::
  "(string \<times> (string \<times> 'e) list) list \<Rightarrow> string \<Rightarrow> string \<Rightarrow> 'e option" where
  "lookupEntry reg serviceName filename =
     (case map_of reg serviceName of None \<Rightarrow> None | Some files \<Rightarrow> map_of files filename)"

definition setEntry ::
  "string \<Rightarrow> string \<Rightarrow> 'e \<Rightarrow> (string \<times> (string \<times> 'e) list) list \<Rightarrow> (string \<times> (string \<times> 'e) list) list" where
  "setEntry serviceName filename e reg =
     (case map_of reg serviceName of
        None \<Rightarrow> reg
      | Some files \<Rightarrow> AList.update serviceName (AList.update filename e files) reg)"

text \<open>startTiming, lines 318-321, with the assignment to \<open>started\<close> each export
  makes.\<close>

definition startTiming :: "'db world \<Rightarrow> 'db service \<Rightarrow> 'db service" where
  "startTiming w s = s\<lparr>started := hrtimeMS w (hrReads s), hrReads := hrReads s + 1\<rparr>"

text \<open>stopTiming, lines 323-337, called with the current value of \<open>started\<close>. The
  global bucket is updated first; a missing registry entry would then be a
  TypeError.\<close>

definition stopTiming ::
  "'db world \<Rightarrow> statName \<Rightarrow> string \<Rightarrow> string \<Rightarrow> 'db service \<Rightarrow> error option \<times> 'db service" where
  "stopTiming w statName serviceName filename s =
     (let totalMS = hrtimeMS w (hrReads s) - started s;
          s1 = s\<lparr>hrReads := hrReads s + 1,
                 serviceStats := addRequest statName totalMS (serviceStats s)\<rparr>
      in case lookupEntry (databaseRegistry s1) serviceName filename of
           None \<Rightarrow> (Some TypeError, s1)
         | Some e \<Rightarrow>
             (None, s1\<lparr>databaseRegistry :=
                         setEntry serviceName filename
                           (e\<lparr>stats := addRequest statName totalMS (stats e)\<rparr>)
                           (databaseRegistry s1)\<rparr>))"

text \<open>The store of an entry after a callback worked on it: the same object, with the
  contents the callback left.\<close>

definition writeBack :: "string \<Rightarrow> string \<Rightarrow> 'db option \<Rightarrow> 'db service \<Rightarrow> 'db service" where
  "writeBack serviceName filename dbo s =
     (case lookupEntry (databaseRegistry s) serviceName filename of
        None \<Rightarrow> s
      | Some e \<Rightarrow>
          (case (dbInstance e, dbo) of
             (Some h, Some db) \<Rightarrow>
               s\<lparr>databaseRegistry :=
                    setEntry serviceName filename (e\<lparr>dbInstance := Some (h\<lparr>content := db\<rparr>)\<rparr>)
                      (databaseRegistry s)\<rparr>
           | _ \<Rightarrow> s))"

text \<open>What getDatabase's \<open>callback(... .instance)\<close> runs (lines 80 and 107): the
  \<open>process...\<close> callback on the entry's store and, when that passes a response on,
  the export's own callback: stopTiming, then the host's callback with \<open>null\<close> and the
  response (lines 347-351 and alike).\<close>

definition callback ::
  "'db world \<Rightarrow> request \<Rightarrow> cont \<Rightarrow> 'db handle option \<Rightarrow> 'db service \<Rightarrow> error option \<times> 'db service" where
  "callback w req k h s =
     (let s1 = s\<lparr>observed := observed s @ [(req, map_option ident h)]\<rparr> in
      case runCont w k (map_option content h) of
        (Inl e, dbo) \<Rightarrow> (Some e, writeBack (serviceOf req) (fileOf req) dbo s1)
      | (Inr response, dbo) \<Rightarrow>
          (case stopTiming w (statOf req) (serviceOf req) (fileOf req)
                  (writeBack (serviceOf req) (fileOf req) dbo s1) of
             (Some e, s2) \<Rightarrow> (Some e, s2)
           | (None, s2) \<Rightarrow>
               (None, s2\<lparr>callbacks := callbacks s2 @ [(Data req, JNull, JStr response)]\<rparr>)))"

text \<open>The function getDatabase passes to \<open>init\<close> (lines 85-108): it registers a new
  entry with zeroed statistics under the key, whatever is there, and calls back. (The
  assignment would be a TypeError without \<open>databaseRegistry[serviceName]\<close>, which
  line 76 has set.)\<close>

definition initCallback ::
  "'db world \<Rightarrow> request \<Rightarrow> cont \<Rightarrow> 'db handle option \<Rightarrow> 'db service \<Rightarrow> error option \<times> 'db service" where
  "initCallback w req k h s =
     (case map_of (databaseRegistry s) (serviceOf req) of
        None \<Rightarrow> (Some TypeError, s)
      | Some files \<Rightarrow>
          callback w req k h
            (s\<lparr>databaseRegistry :=
                 setEntry (serviceOf req) (fileOf req) \<lparr>dbInstance = h, stats = zeroStats\<rparr>
                   (databaseRegistry s)\<rparr>))"

text \<open>The object an initializer constructs: a new identity, unless it is null.\<close>

definition construct :: "'db option \<Rightarrow> 'db service \<Rightarrow> 'db handle option \<times> 'db service" where
  "construct d s =
     (case d of
        None \<Rightarrow> (None, s)
      | Some db \<Rightarrow> (Some \<lparr>ident = constructed s, content = db\<rparr>,
                    s\<lparr>constructed := constructed s + 1\<rparr>))"

text \<open>getDatabase, lines 75-109.\<close>

definition getDatabase ::
  "'db world \<Rightarrow> request \<Rightarrow> cont \<Rightarrow> 'db service \<Rightarrow> error option \<times> 'db service" where
  "getDatabase w req k s =
     (let serviceName = serviceOf req; filename = fileOf req;
          s1 = (case map_of (databaseRegistry s) serviceName of
                  None \<Rightarrow> s\<lparr>databaseRegistry := databaseRegistry s @ [(serviceName, [])]\<rparr>
                | Some files \<Rightarrow> s)
      in case lookupEntry (databaseRegistry s1) serviceName filename of
           Some e \<Rightarrow> callback w req k (dbInstance e) s1
         | None \<Rightarrow>
             (case requireInit w serviceName of
                None \<Rightarrow> (Some RequireError, s1)
              | Some init \<Rightarrow>
                  (let result = init filename (length (initCalls s1));
                       s2 = s1\<lparr>initCalls := initCalls s1 @
                                 [(serviceName, filename,
                                   case result of InitThrows e \<Rightarrow> False | _ \<Rightarrow> True)]\<rparr>
                   in
                   case result of
                     InitThrows e \<Rightarrow> (Some e, s2)
                   | InitSync d \<Rightarrow>
                       (case construct d s2 of (h, s3) \<Rightarrow> initCallback w req k h s3)
                   | InitAsync d \<Rightarrow>
                       (case construct d s2 of
                          (h, s3) \<Rightarrow>
                            (None, s3\<lparr>pendingInits := pendingInits s3 @ [(req, k, h)]\<rparr>)))))"

text \<open>A data export (lines 344-433): startTiming, the work before getDatabase,
  getDatabase. What it returns is what it throws, if anything.\<close>

definition invoke :: "'db world \<Rightarrow> request \<Rightarrow> 'db service \<Rightarrow> error option \<times> 'db service" where
  "invoke w req s =
     (let s1 = startTiming w s in
      case prepare w req of
        Inl e \<Rightarrow> (Some e, s1)
      | Inr k \<Rightarrow> getDatabase w req k s1)"

text \<open>The \<open>i\<close>-th initializer that has not called back yet does so.\<close>

definition initComplete :: "'db world \<Rightarrow> nat \<Rightarrow> 'db service \<Rightarrow> error option \<times> 'db service" where
  "initComplete w i s =
     (if i < length (pendingInits s)
      then (case pendingInits s ! i of
              (req, k, h) \<Rightarrow>
                initCallback w req k h
                  (s\<lparr>pendingInits := take i (pendingInits s) @ drop (Suc i) (pendingInits s)\<rparr>))
      else (None, s))"

section \<open>instanceStats and shutdown\<close>

text \<open>The remaining export, \<open>stats\<close> (lines 435-460), reads process figures and
  the registry's keys into \<open>serviceStats\<close> and serializes it; it changes neither the
  registry nor a counter and is not modelled, nor is its helper formatBytes.\<close>

text \<open>A statistics bucket as JSON.stringify sees it, in the order of its literal.\<close>

definition statsJson :: "requestStats \<Rightarrow> json" where
  "statsJson st =
     JObj [(''totalRequests'', JNum (of_nat (totalRequests st))),
           (''totalTime'', JNum (totalTime st)),
           (''getRequests'', JNum (of_nat (requests st GetStat))),
           (''getTime'', JNum (times st GetStat)),
           (''findRequests'', JNum (of_nat (requests st FindStat))),
           (''findTime'', JNum (times st FindStat)),
           (''transformRequests'', JNum (of_nat (requests st TransformStat))),
           (''transformTime'', JNum (times st TransformStat)),
           (''dynamicViewRequests'', JNum (of_nat (requests st DynamicViewStat))),
           (''dynamicViewTime'', JNum (times st DynamicViewStat)),
           (''insertRequests'', JNum (of_nat (requests st InsertStat))),
           (''insertTime'', JNum (times st InsertStat)),
           (''updateRequests'', JNum (of_nat (requests st UpdateStat))),
           (''updateTime'', JNum (times st UpdateStat)),
           (''removeRequests'', JNum (of_nat (requests st RemoveStat))),
           (''removeTime'', JNum (times st RemoveStat))]"

text \<open>
  instanceStats, lines 462-501. Neither miss returns after \<open>callback(null)\<close>: line 464
  then reads a property of \<open>undefined\<close>, and so does line 466. Service and file names
  are taken not to be names of members of Object.prototype.
\<close>

definition instanceStats ::
  "'db world \<Rightarrow> string \<Rightarrow> string \<Rightarrow> 'db service \<Rightarrow> error option \<times> 'db service" where
  "instanceStats w serviceName filename s =
     (let miss = (InstanceStats serviceName filename, JNull, JUndefined);
          s1 = (if map_of (databaseRegistry s) serviceName = None
                then s\<lparr>callbacks := callbacks s @ [miss]\<rparr> else s)
      in case map_of (databaseRegistry s) serviceName of
           None \<Rightarrow> (Some TypeError, s1)
         | Some files \<Rightarrow>
             (let s2 = (if map_of files filename = None
                        then s1\<lparr>callbacks := callbacks s1 @ [miss]\<rparr> else s1)
              in case map_of files filename of
                   None \<Rightarrow> (Some TypeError, s2)
                 | Some e \<Rightarrow>
                     (case dbInstance e of
                        None \<Rightarrow> (Some TypeError, s2)
                      | Some h \<Rightarrow>
                          (case collectionInfo w (content h) of
                             Inl er \<Rightarrow> (Some er, s2)
                           | Inr infos \<Rightarrow>
                               (None,
                                s2\<lparr>callbacks := callbacks s2 @
                                   [(InstanceStats serviceName filename, JNull,
                                     JStr (jsonStringify w
                                       (JObj [(''serviceName'', JStr serviceName),
                                              (''filename'', JStr filename),
                                              (''autosave'', dbField w (content h) ''autosave''),
                                              (''autosaveInterval'', dbField w (content h) ''autosaveInterval''),
                                              (''throttledSaves'', dbField w (content h) ''throttledSaves''),
                                              (''databaseVersion'', dbField w (content h) ''databaseVersion''),
                                              (''requestStats'', statsJson (stats e)),
                                              (''collectionInfo'', JArr infos)])))]\<rparr>)))))"

text \<open>
  The inner loop of shutdown (lines 505-512) over the files of one service: for each
  entry whose instance is not null, \<open>close()\<close> and \<open>callback(null)\<close>. The result is
  what was thrown, the entries as the loop leaves them, and the files closed, in order;
  an exception of \<open>close\<close> ends the loop.
\<close>

fun closeFiles ::
  "'db world \<Rightarrow> (string \<times> 'db registryEntry) list \<Rightarrow>
     error option \<times> (string \<times> 'db registryEntry) list \<times> string list" where
  "closeFiles w [] = (None, [], [])"
| "closeFiles w ((instName, dbreg) # rest) =
     (case dbInstance dbreg of
        None \<Rightarrow>
          (case closeFiles w rest of
             (er, rest', keys) \<Rightarrow> (er, (instName, dbreg) # rest', keys))
      | Some h \<Rightarrow>
          (case dbClose w (content h) of
             Inl e \<Rightarrow> (Some e, (instName, dbreg) # rest, [])
           | Inr db' \<Rightarrow>
               (case closeFiles w rest of
                  (er, rest', keys) \<Rightarrow>
                    (er, (instName, dbreg\<lparr>dbInstance := Some (h\<lparr>content := db'\<rparr>)\<rparr>) # rest',
                     instName # keys))))"

text \<open>The outer loop (line 504) over the services.\<close>

fun closeServices ::
  "'db world \<Rightarrow> (string \<times> (string \<times> 'db registryEntry) list) list \<Rightarrow>
     error option \<times> (string \<times> (string \<times> 'db registryEntry) list) list \<times> (string \<times> string) list" where
  "closeServices w [] = (None, [], [])"
| "closeServices w ((initName, files) # rest) =
     (case closeFiles w files of
        (Some e, files', keys) \<Rightarrow>
          (Some e, (initName, files') # rest, map (Pair initName) keys)
      | (None, files', keys) \<Rightarrow>
          (case closeServices w rest of
             (er, rest', keys') \<Rightarrow>
               (er, (initName, files') # rest', map (Pair initName) keys @ keys')))"

text \<open>shutdown, lines 503-514: the host's callback is called with \<open>null\<close> once per
  store keys, and nowhere else.\<close>

definition shutdown :: "'db world \<Rightarrow> 'db service \<Rightarrow> error option \<times> 'db service" where
  "shutdown w s =
     (case closeServices w (databaseRegistry s) of
        (er, reg', keys) \<Rightarrow>
          (er, s\<lparr>databaseRegistry := reg',
                 closeCalls := closeCalls s @ keys,
                 callbacks := callbacks s @ map (\<lambda>key. (Shutdown, JNull, JUndefined)) keys\<rparr>))"

text \<open>The entries shutdown has to close: those whose instance is not null, by file
  within one service and by service and file in the whole registry, in the order the
  loops visit them.\<close>

definition liveFiles :: "(string \<times> 'db registryEntry) list \<Rightarrow> string list" where
  "liveFiles files = map fst (filter (\<lambda>(instName, dbreg). dbInstance dbreg \<noteq> None) files)"

definition liveKeys ::
  "(string \<times> (string \<times> 'db registryEntry) list) list \<Rightarrow> (string \<times> string) list" where
  "liveKeys reg = concat (map (\<lambda>(initName, files). map (Pair initName) (liveFiles files)) reg)"

section \<open>Runs\<close>

text \<open>What happens to the module, one event after the other: the host calls a data
  export, or an initializer that was still loading calls back. The host catches what
  an event throws and the run goes on.\<close>

datatype event = Invoke request | InitComplete nat

fun step :: "'db world \<Rightarrow> event \<Rightarrow> 'db service \<Rightarrow> error option \<times> 'db service" where
  "step w (Invoke req) s = invoke w req s"
| "step w (InitComplete i) s = initComplete w i s"

fun run :: "'db world \<Rightarrow> event list \<Rightarrow> 'db service \<Rightarrow> 'db service" where
  "run w [] s = s"
| "run w (ev # evs) s = run w evs (snd (step w ev s))"

section \<open>What the claims say of runs\<close>

text \<open>The registry key of a request, whether a key is registered, and the
  initializations of a key that are in flight.\<close>

definition keyOf :: "request \<Rightarrow> string \<times> string" where
  "keyOf req = (serviceOf req, fileOf req)"

definition registered :: "'db service \<Rightarrow> string \<times> string \<Rightarrow> bool" where
  "registered s key = (lookupEntry (databaseRegistry s) (fst key) (snd key) \<noteq> None)"

definition pendingFor ::
  "'db service \<Rightarrow> string \<times> string \<Rightarrow> (request \<times> cont \<times> 'db handle option) list" where
  "pendingFor s key = filter (\<lambda>(req, k, h). keyOf req = key) (pendingInits s)"

text \<open>The identity of the store registered under a key: None when the key is not
  registered, \<open>Some None\<close> when a null instance is.\<close>

definition identAt :: "'db service \<Rightarrow> string \<times> string \<Rightarrow> nat option option" where
  "identAt s key =
     map_option (\<lambda>e. map_option ident (dbInstance e))
       (lookupEntry (databaseRegistry s) (fst key) (snd key))"

text \<open>The \<open>init\<close> calls for a key that returned, and the store identities the
  getDatabase callbacks of the requests for a key received.\<close>

definition initsFor :: "'db service \<Rightarrow> string \<times> string \<Rightarrow> (string \<times> string \<times> bool) list" where
  "initsFor s key = filter (\<lambda>(serviceName, filename, returned). (serviceName, filename) = key \<and> returned) (initCalls s)"

definition observedFor :: "'db service \<Rightarrow> string \<times> string \<Rightarrow> nat option list" where
  "observedFor s key = map snd (filter (\<lambda>(req, i). keyOf req = key) (observed s))"

text \<open>A key is settled on the store \<open>x\<close> when \<open>x\<close> is registered under it and no
  initialization of the key is in flight, or when nothing is registered under it and the
  one initialization in flight is constructing \<open>x\<close>.\<close>

definition settled :: "'db service \<Rightarrow> string \<times> string \<Rightarrow> nat option \<Rightarrow> bool" where
  "settled s key x =
     (if pendingFor s key = [] then identAt s key = Some x
      else identAt s key = None \<and> map_of (databaseRegistry s) (fst key) \<noteq> None
           \<and> map (\<lambda>(req, k, h). map_option ident h) (pendingFor s key) = [x])"

text \<open>A run is serial for a key when no request for the key is issued while an
  initialization of that key is in flight.\<close>

fun serialFor :: "'db world \<Rightarrow> string \<times> string \<Rightarrow> event list \<Rightarrow> 'db service \<Rightarrow> bool" where
  "serialFor w key [] s = True"
| "serialFor w key (Invoke req # evs) s =
     ((if keyOf req = key then pendingFor s key = [] else True)
      \<and> serialFor w key evs (snd (invoke w req s)))"
| "serialFor w key (InitComplete i # evs) s = serialFor w key evs (snd (initComplete w i s))"

text \<open>The sum of \<open>totalRequests\<close> over the entries of the registry.\<close>

definition sumTotals :: "(string \<times> (string \<times> 'db registryEntry) list) list \<Rightarrow> nat" where
  "sumTotals reg =
     sum_list (map (\<lambda>(initName, files).
                 sum_list (map (\<lambda>(instName, dbreg). totalRequests (stats dbreg)) files)) reg)"





text \<open>What \<open>require(serviceName).init(filename, ...)\<close> does when getDatabase
  reaches line 84 for the request in this state; \<open>None\<close> when \<open>require\<close>
  fails.\<close>

definition initResult :: "'db world \<Rightarrow> request \<Rightarrow> 'db service \<Rightarrow> 'db initOutcome option" where
  "initResult w req s =
     map_option (\<lambda>init. init (fileOf req) (length (initCalls s))) (requireInit w (serviceOf req))"

section \<open>A small store to run the model on\<close>

text \<open>
  The theorems below hold for every collaborator. To evaluate them on concrete inputs,
  this section fixes one: a store that keeps each collection as a list of documents,
  identified by \<open>$loki\<close> and handed out without cloning, a parser that knows the
  JSON texts of the empty object and the empty array, a clock that advances by one millisecond per reading, the asynchronous
  initializer of the example (\<open>demo1-service.init.js\<close>), a synchronous one and one
  that throws, a view
  \<open>Youngsters\<close> on every collection and one named transform, \<open>goddesses\<close>; any
  other transform name is an error, as in LokiJS. It stands for no part of
  lokiservice.js.
\<close>

type_synonym memStore = "(string \<times> (string \<times> json) list list) list"

definition memDocs :: "memStore \<Rightarrow> string \<Rightarrow> (string \<times> json) list list" where
  "memDocs db c = (case map_of db c of None \<Rightarrow> [] | Some ds \<Rightarrow> ds)"

definition memGet :: "memStore \<Rightarrow> string \<Rightarrow> json \<Rightarrow> error + (string \<times> json) list option" where
  "memGet db c i = Inr (find (\<lambda>d. map_of d ''$loki'' = Some i) (memDocs db c))"

definition memPoke :: "memStore \<Rightarrow> string \<Rightarrow> json \<Rightarrow> (string \<times> json) list \<Rightarrow> memStore" where
  "memPoke db c i merged =
     AList.update c (map (\<lambda>d. if map_of d ''$loki'' = Some i then merged else d) (memDocs db c)) db"

definition memFind :: "memStore \<Rightarrow> string \<Rightarrow> json \<Rightarrow> error + json" where
  "memFind db c q =
     Inr (JArr (map JObj
       (filter (\<lambda>d. list_all (\<lambda>(k, v). map_of d k = Some v) (ownEnumerable q)) (memDocs db c))))"

definition memInsert :: "memStore \<Rightarrow> string \<Rightarrow> json \<Rightarrow> (error + json) \<times> memStore" where
  "memInsert db c obj =
     (case obj of
        JObj d \<Rightarrow>
          if map_of d ''$loki'' = None
          then (let d' = d @ [(''$loki'', JNum (of_nat (Suc (length (memDocs db c)))))]
                in (Inr (JObj d'), AList.update c (memDocs db c @ [d']) db))
          else (Inl (Thrown ''Document is already in collection''), db)
      | _ \<Rightarrow> (Inl (Thrown ''Document needs to be an object''), db))"

definition memUpdate :: "memStore \<Rightarrow> string \<Rightarrow> json \<Rightarrow> (error + json) \<times> memStore" where
  "memUpdate db c obj =
     (case find (\<lambda>d. map_of d ''$loki'' = Some (getProp obj ''$loki'')) (memDocs db c) of
        None \<Rightarrow> (Inl (Thrown ''Trying to update unsynced document''), db)
      | Some old \<Rightarrow> (Inr obj, memPoke db c (getProp obj ''$loki'') (ownEnumerable obj)))"

definition memRemove :: "memStore \<Rightarrow> string \<Rightarrow> json \<Rightarrow> (error + json) \<times> memStore" where
  "memRemove db c obj =
     (Inr obj,
      AList.update c (filter (\<lambda>d. map_of d ''$loki'' \<noteq> Some (getProp obj ''$loki'')) (memDocs db c)) db)"

definition seed :: memStore where
  "seed = [(''users'', [[(''$loki'', JNum 5), (''age'', JNum 30), (''tags'', JArr [JStr ''a''])]])]"

definition memWorld :: "memStore world" where
  "memWorld =
     \<lparr>requireInit = (\<lambda>name.
         if name = ''demo1-service.init.js'' then Some (\<lambda>file n. InitAsync (Some seed))
         else if name = ''sync.init.js'' then Some (\<lambda>file n. InitSync (Some seed))
         else if name = ''broken.init.js'' then Some (\<lambda>file n. InitThrows (Thrown ''cannot open''))
         else None),
      hrtimeMS = of_nat,
      jsonParse = (\<lambda>v. case v of
                        JStr t \<Rightarrow> map_of [(''{}'', JObj []), (''[]'', JArr [])] t
                      | _ \<Rightarrow> None),
      jsonStringify = (\<lambda>v. case v of
                            JArr xs \<Rightarrow> ''array of '' @ decimal (length xs)
                          | JObj kvs \<Rightarrow> ''object of '' @ decimal (length kvs)
                          | _ \<Rightarrow> ''value''),
      parseInt10 = (\<lambda>t. if t = ''5'' then JNum 5 else JUndefined),
      hasCollection = (\<lambda>db c. map_of db c \<noteq> None),
      collGet = memGet,
      collPoke = memPoke,
      collFind = memFind,
      collInsert = memInsert,
      collUpdate = memUpdate,
      collRemove = memRemove,
      collChain = (\<lambda>db c t p. Inr (JObj [], Inr (JArr (map JObj (memDocs db c))))),
      hasDynamicView = (\<lambda>db c v. map_of db c \<noteq> None \<and> v = ''Youngsters''),
      viewData = (\<lambda>db c v. Inr (JArr (map JObj (memDocs db c)))),
      viewBranch = (\<lambda>db c v t p r.
         if t = JUndefined then Inr (JArr (map JObj (memDocs db c)))
         else if t = JStr ''goddesses'' then Inr (JArr [])
         else Inl (Thrown ''Invalid transform'')),
      dbClose = Inr,
      dbField = (\<lambda>db name. JUndefined),
      collectionInfo = (\<lambda>db. Inr (map (\<lambda>(c, ds). JObj [(''name'', JStr c), (''count'', JNum (of_nat (length ds)))]) db))\<rparr>"

text \<open>The module after an initializer has registered the seeded store for
  \<open>sync.init.js\<close> and \<open>./demo1.db\<close>, before any request was counted.\<close>

definition servingSeed :: "memStore service" where
  "servingSeed =
     freshService\<lparr>databaseRegistry :=
       [(''sync.init.js'',
         [(''./demo1.db'', \<lparr>dbInstance = Some \<lparr>ident = 0, content = seed\<rparr>, stats = zeroStats\<rparr>)])],
       constructed := 1, initCalls := [(''sync.init.js'', ''./demo1.db'', True)]\<rparr>"

text \<open>The request of the example (\<open>example.js\<close>, with an empty query), and a run
  in which the host issues it twice before the initializer has loaded the file.\<close>

definition findUsers :: request where
  "findUsers = Find ''demo1-service.init.js'' ''./demo1.db'' ''users'' (JObj [])"

definition race :: "event list" where
  "race = [Invoke findUsers, Invoke findUsers, InitComplete 0, InitComplete 0]"

definition oneByOne :: "event list" where
  "oneByOne = [Invoke findUsers, InitComplete 0, Invoke findUsers]"

text \<open>An update for an identity no record of \<open>users\<close> has, a find whose query
  is not JSON, each through the initializer named, and a transform whose parameters are
  not JSON.\<close>

definition strayDelta :: json where
  "strayDelta = JObj [(''$loki'', JNum 9), (''age'', JNum 31)]"

definition strayUpdate :: "string \<Rightarrow> request" where
  "strayUpdate serviceName = Update serviceName ''./demo1.db'' ''users'' strayDelta"



section \<open>instanceStats on a pair that is not registered\<close>

lemma lookupEntry_None_cases:
  "lookupEntry reg serviceName filename = None \<Longrightarrow>
     map_of reg serviceName = None \<or>
     (\<exists>files. map_of reg serviceName = Some files \<and> map_of files filename = None)"
  by (auto simp: lookupEntry_def split: option.splits)

text \<open>
  C6. The claim: instanceStats on a pair that was never registered passes an absent
  result to the caller and raises no error. The code: it does call the host's callback
  once with \<open>null\<close> alone, and then, for want of a \<open>return\<close>, goes on to read a
  property of \<open>undefined\<close> and throws a TypeError.
\<close>

theorem instanceStats_miss_throws:
  assumes "lookupEntry (databaseRegistry s) serviceName filename = None"
  shows "instanceStats w serviceName filename s =
           (Some TypeError,
            s\<lparr>callbacks := callbacks s @ [(InstanceStats serviceName filename, JNull, JUndefined)]\<rparr>)"
  using lookupEntry_None_cases [OF assms]
  by (auto simp: instanceStats_def)

theorem instanceStats_miss_throws_witness:
  "lookupEntry (databaseRegistry (freshService :: memStore service)) ''demo1-service.init.js'' ''./none.db'' = None
   \<and> instanceStats memWorld ''demo1-service.init.js'' ''./none.db'' freshService =
       (Some TypeError,
        freshService\<lparr>callbacks := [(InstanceStats ''demo1-service.init.js'' ''./none.db'', JNull, JUndefined)]\<rparr>)"
proof -
  have h: "lookupEntry (databaseRegistry (freshService :: memStore service))
             ''demo1-service.init.js'' ''./none.db'' = None"
    by (simp add: freshService_def lookupEntry_def)
  show ?thesis
    using h instanceStats_miss_throws [OF h, of memWorld]
    by (simp add: freshService_def)
qed

section \<open>dynamicView with a transform name\<close>

text \<open>
  C5. The claim: when a transform name is supplied, the view's result set is branched
  through the transform of that name. The code: whatever truthy name is supplied (here
  \<open>goddesses\<close>), branchResultset is given the string \<open>transformName\<close>; the name
  supplied only decides that a transform is applied. processDynamicViewTransform,
  beside it, passes the variable.
\<close>

theorem processDynamicView_ignores_name:
  assumes "hasCollection w db collection" and "hasDynamicView w db collection viewname"
  shows "processDynamicView w collection viewname (JStr ''goddesses'') JUndefined (Some db) =
           (case viewBranch w db collection viewname (JStr ''transformName'') JUndefined None of
              Inl e \<Rightarrow> (Inl e, Some db)
            | Inr result \<Rightarrow> (Inr (jsonStringify w result), Some db))"
  using assms
  by (simp add: processDynamicView_def parseIfTruthy_def withView_def withCollection_def)

theorem processDynamicView_ignores_name_witness:
  "hasCollection memWorld seed ''users'' \<and> hasDynamicView memWorld seed ''users'' ''Youngsters''
   \<and> processDynamicView memWorld ''users'' ''Youngsters'' (JStr ''goddesses'') JUndefined (Some seed) =
       (Inl (Thrown ''Invalid transform''), Some seed)
   \<and> viewBranch memWorld seed ''users'' ''Youngsters'' (JStr ''goddesses'') JUndefined None = Inr (JArr [])"
proof -
  have h1: "hasCollection memWorld seed ''users''"
    by (simp add: memWorld_def seed_def)
  have h2: "hasDynamicView memWorld seed ''users'' ''Youngsters''"
    by (simp add: memWorld_def seed_def)
  have h3: "viewBranch memWorld seed ''users'' ''Youngsters'' (JStr ''transformName'') JUndefined None
              = Inl (Thrown ''Invalid transform'')"
    by (simp add: memWorld_def)
  have h4: "viewBranch memWorld seed ''users'' ''Youngsters'' (JStr ''goddesses'') JUndefined None
              = Inr (JArr [])"
    by (simp add: memWorld_def)
  show ?thesis
    using h1 h2 h4 processDynamicView_ignores_name [OF h1 h2]
    by (simp add: h3)
qed

section \<open>What insert passes to the store\<close>

lemma ownProp_deleteProp_same [simp]: "ownProp (deleteProp k v) k = None"
  by (cases v) (simp_all add: delete_conv')

lemma ownProp_deleteProp_other [simp]:
  "k' \<noteq> k \<Longrightarrow> ownProp (deleteProp k v) k' = ownProp v k'"
  by (cases v) simp_all

lemma insertPayload_cases:
  assumes "insertPayload w obj = Inr record"
  obtains obj1 where "parseIfString w obj = Inr obj1" and "\<not> nullish obj1"
    and "record =
           (let obj2 = (if getProp obj1 ''$loki'' = JNum 0 then deleteProp ''$loki'' obj1 else obj1)
            in if ownProp obj2 ''meta'' \<noteq> None then deleteProp ''meta'' obj2 else obj2)"
  using assms
  by (auto simp: insertPayload_def hasOwnProperty_def Let_def
           split: sum.splits if_splits option.splits)

lemma processInsert_reaches_store:
  assumes "insertPayload w obj = Inr record" and "hasCollection w db collection"
  shows "processInsert w collection obj (Some db) =
           (case collInsert w db collection record of
              (Inl e, db') \<Rightarrow> (Inl e, Some db')
            | (Inr result, db') \<Rightarrow> (Inr (jsonStringify w result), Some db'))"
  using assms by (simp add: processInsert_def withCollection_def)

text \<open>
  C9. Whatever record processInsert hands to the collection's \<open>insert\<close> has no
  \<open>meta\<close> field and no \<open>$loki\<close> field equal to \<open>0\<close>; every other field of the
  (parsed) payload, a \<open>$loki\<close> other than \<open>0\<close> included, reaches the store as it was
  given.
\<close>

theorem processInsert_strips:
  assumes "insertPayload w obj = Inr record" and "hasCollection w db collection"
  shows "processInsert w collection obj (Some db) =
           (case collInsert w db collection record of
              (Inl e, db') \<Rightarrow> (Inl e, Some db')
            | (Inr result, db') \<Rightarrow> (Inr (jsonStringify w result), Some db'))
         \<and> ownProp record ''meta'' = None
         \<and> getProp record ''$loki'' \<noteq> JNum 0
         \<and> (\<exists>obj1. parseIfString w obj = Inr obj1
               \<and> (\<forall>k. k \<noteq> ''$loki'' \<and> k \<noteq> ''meta'' \<longrightarrow> ownProp record k = ownProp obj1 k)
               \<and> (getProp obj1 ''$loki'' \<noteq> JNum 0 \<longrightarrow> ownProp record ''$loki'' = ownProp obj1 ''$loki''))"
proof (intro conjI)
  show "processInsert w collection obj (Some db) =
           (case collInsert w db collection record of
              (Inl e, db') \<Rightarrow> (Inl e, Some db')
            | (Inr result, db') \<Rightarrow> (Inr (jsonStringify w result), Some db'))"
    by (rule processInsert_reaches_store [OF assms])
next
  show "ownProp record ''meta'' = None"
    using assms(1)
    by (auto elim!: insertPayload_cases simp: Let_def split: if_splits)
next
  show "getProp record ''$loki'' \<noteq> JNum 0"
    using assms(1)
    by (auto elim!: insertPayload_cases simp: Let_def getProp_def split: if_splits)
next
  show "\<exists>obj1. parseIfString w obj = Inr obj1
               \<and> (\<forall>k. k \<noteq> ''$loki'' \<and> k \<noteq> ''meta'' \<longrightarrow> ownProp record k = ownProp obj1 k)
               \<and> (getProp obj1 ''$loki'' \<noteq> JNum 0 \<longrightarrow> ownProp record ''$loki'' = ownProp obj1 ''$loki'')"
    using assms(1)
    by (auto elim!: insertPayload_cases simp: Let_def split: if_splits)
qed

theorem processInsert_strips_witness:
  "insertPayload memWorld (JObj [(''$loki'', JNum 0), (''name'', JStr ''x'')]) = Inr (JObj [(''name'', JStr ''x'')])
   \<and> hasCollection memWorld seed ''users''
   \<and> processInsert memWorld ''users'' (JObj [(''$loki'', JNum 0), (''name'', JStr ''x'')]) (Some seed) =
       (Inr ''object of 2'',
        Some [(''users'', [[(''$loki'', JNum 5), (''age'', JNum 30), (''tags'', JArr [JStr ''a''])],
                          [(''name'', JStr ''x''), (''$loki'', JNum 2)]])])
   \<and> ownProp (JObj [(''name'', JStr ''x'')]) ''meta'' = None
   \<and> getProp (JObj [(''name'', JStr ''x'')]) ''$loki'' \<noteq> JNum 0"
proof -
  have h1: "insertPayload memWorld (JObj [(''$loki'', JNum 0), (''name'', JStr ''x'')])
              = Inr (JObj [(''name'', JStr ''x'')])"
    by (simp add: insertPayload_def parseIfString_def getProp_def hasOwnProperty_def
                  AList.delete_eq)
  have h2: "hasCollection memWorld seed ''users''"
    by (simp add: memWorld_def seed_def)
  have h3: "collInsert memWorld seed ''users'' (JObj [(''name'', JStr ''x'')]) =
              (Inr (JObj [(''name'', JStr ''x''), (''$loki'', JNum 2)]),
               [(''users'', [[(''$loki'', JNum 5), (''age'', JNum 30), (''tags'', JArr [JStr ''a''])],
                             [(''name'', JStr ''x''), (''$loki'', JNum 2)]])])"
    by (simp add: memWorld_def memInsert_def memDocs_def seed_def Let_def)
  have h4: "jsonStringify memWorld (JObj [(''name'', JStr ''x''), (''$loki'', JNum 2)]) = ''object of 2''"
    by (simp add: memWorld_def decimal.simps digit_def)
  show ?thesis
    using h1 h2 processInsert_strips [OF h1 h2]
    by (simp add: h3 h4)
qed

section \<open>update\<close>

lemma map_of_assign_fold:
  "distinct (map fst kvs) \<Longrightarrow>
     map_of (fold (\<lambda>(k, v) d. AList.update k v d) kvs doc) k =
       (case map_of kvs k of Some v \<Rightarrow> Some v | None \<Rightarrow> map_of doc k)"
proof (induction kvs arbitrary: doc)
  case Nil
  then show ?case by simp
next
  case (Cons kv kvs)
  obtain a b where kv: "kv = (a, b)" by (cases kv)
  have notin: "map_of kvs a = None"
    using Cons.prems kv by (simp add: map_of_eq_None_iff)
  show ?case
    using Cons.IH [of "AList.update a b doc"] Cons.prems kv notin
    by (auto simp: update_conv' split: option.splits)
qed

lemma setEntry_same:
  "lookupEntry reg serviceName filename = Some e \<Longrightarrow> setEntry serviceName filename e reg = reg"
  by (auto simp: lookupEntry_def setEntry_def update_triv split: option.splits)

lemma updatePayload_cases:
  assumes "updatePayload w obj = Inr delta"
  obtains obj1 where "parseIfString w obj = Inr obj1" and "\<not> nullish obj1"
    and "delta = (if ownProp obj1 ''meta'' \<noteq> None then deleteProp ''meta'' obj1 else obj1)"
  using assms
  by (auto simp: updatePayload_def hasOwnProperty_def split: sum.splits if_splits option.splits)

lemma processUpdate_missing:
  assumes "updatePayload w obj = Inr delta" and "hasCollection w db collection"
    and "collGet w db collection (getProp delta ''$loki'') = Inr None"
  shows "processUpdate w collection obj (Some db) = (Inl TypeError, Some db)"
  using assms by (simp add: processUpdate_def withCollection_def)

lemma writeBack_same:
  assumes "lookupEntry (databaseRegistry s) serviceName filename = Some e"
    and "dbInstance e = Some h"
  shows "writeBack serviceName filename (Some (content h)) s = s"
  using assms by (simp add: writeBack_def setEntry_same)

lemma getDatabase_registered:
  assumes "lookupEntry (databaseRegistry s) (serviceOf req) (fileOf req) = Some e"
  shows "getDatabase w req k s = callback w req k (dbInstance e) s"
  using assms
  by (auto simp: getDatabase_def lookupEntry_def Let_def split: option.splits)


lemma processUpdate_found:
  assumes "updatePayload w obj = Inr delta" and "hasCollection w db collection"
    and "collGet w db collection (getProp delta ''$loki'') = Inr (Some doc)"
  shows "processUpdate w collection obj (Some db) =
           (case collUpdate w (collPoke w db collection (getProp delta ''$loki'') (assign doc delta))
                   collection (JObj (assign doc delta)) of
              (Inl e, db2) \<Rightarrow> (Inl e, Some db2)
            | (Inr result, db2) \<Rightarrow> (Inr (jsonStringify w result), Some db2))"
  using assms by (simp add: processUpdate_def withCollection_def Let_def)

text \<open>
  C3. The update payload is first parsed, when it is a string, and stripped of its
  bookkeeping field \<open>meta\<close> (lines 178-185); what is left is the delta. For a delta
  that is an object (each property once) and an existing document \<open>get\<close> finds
  under the delta's \<open>$loki\<close>: the document written back (overwritten in place, then
  passed to \<open>update\<close>) holds, for every field name, the delta's value when the delta
  names the field and the document's previous value otherwise; and the delta is the
  (parsed) payload at every name but \<open>meta\<close>.
\<close>

theorem processUpdate_merges:
  assumes "updatePayload w obj = Inr (JObj delta)" and "distinct (map fst delta)"
    and "hasCollection w db collection"
    and "collGet w db collection (getProp (JObj delta) ''$loki'') = Inr (Some doc)"
  shows "processUpdate w collection obj (Some db) =
           (case collUpdate w
                   (collPoke w db collection (getProp (JObj delta) ''$loki'') (assign doc (JObj delta)))
                   collection (JObj (assign doc (JObj delta))) of
              (Inl e, db2) \<Rightarrow> (Inl e, Some db2)
            | (Inr result, db2) \<Rightarrow> (Inr (jsonStringify w result), Some db2))
         \<and> (\<forall>k. map_of (assign doc (JObj delta)) k =
                  (case map_of delta k of Some v \<Rightarrow> Some v | None \<Rightarrow> map_of doc k))
         \<and> map_of delta ''meta'' = None
         \<and> (\<exists>obj1. parseIfString w obj = Inr obj1
               \<and> (\<forall>k. k \<noteq> ''meta'' \<longrightarrow> map_of delta k = ownProp obj1 k))"
proof (intro conjI)
  show "processUpdate w collection obj (Some db) =
           (case collUpdate w
                   (collPoke w db collection (getProp (JObj delta) ''$loki'') (assign doc (JObj delta)))
                   collection (JObj (assign doc (JObj delta))) of
              (Inl e, db2) \<Rightarrow> (Inl e, Some db2)
            | (Inr result, db2) \<Rightarrow> (Inr (jsonStringify w result), Some db2))"
    by (rule processUpdate_found [OF assms(1,3,4)])
next
  show "\<forall>k. map_of (assign doc (JObj delta)) k =
                  (case map_of delta k of Some v \<Rightarrow> Some v | None \<Rightarrow> map_of doc k)"
    using map_of_assign_fold [OF assms(2)] by (simp add: assign_def)
next
  from assms(1) obtain obj1 where p: "parseIfString w obj = Inr obj1"
    and d: "JObj delta = (if ownProp obj1 ''meta'' \<noteq> None then deleteProp ''meta'' obj1 else obj1)"
    by (rule updatePayload_cases)
  have m: "ownProp (JObj delta) ''meta'' = None"
    by (subst d) (simp split: if_splits)
  then show "map_of delta ''meta'' = None" by simp
  have "\<forall>k. k \<noteq> ''meta'' \<longrightarrow> ownProp (JObj delta) k = ownProp obj1 k"
    by (subst d) simp
  then show "\<exists>obj1. parseIfString w obj = Inr obj1
               \<and> (\<forall>k. k \<noteq> ''meta'' \<longrightarrow> map_of delta k = ownProp obj1 k)"
    using p by auto
qed

text \<open>The spec's example on the stored record with identity 5, and the same update
  with the bookkeeping field in the payload, as a client sends it that got the record
  from the store: the delta and the record written back are the same.\<close>

theorem processUpdate_merges_witness:
  "updatePayload memWorld
     (JObj [(''$loki'', JNum 5), (''age'', JNum 31), (''meta'', JObj [(''revision'', JNum 7)])])
     = Inr (JObj [(''$loki'', JNum 5), (''age'', JNum 31)])
   \<and> distinct (map fst [(''$loki'', JNum 5), (''age'', JNum (31::rat))])
   \<and> hasCollection memWorld seed ''users''
   \<and> collGet memWorld seed ''users'' (JNum 5) =
        Inr (Some [(''$loki'', JNum 5), (''age'', JNum 30), (''tags'', JArr [JStr ''a''])])
   \<and> assign [(''$loki'', JNum 5), (''age'', JNum 30), (''tags'', JArr [JStr ''a''])]
        (JObj [(''$loki'', JNum 5), (''age'', JNum 31)]) =
        [(''$loki'', JNum 5), (''age'', JNum 31), (''tags'', JArr [JStr ''a''])]
   \<and> processUpdate memWorld ''users''
        (JObj [(''$loki'', JNum 5), (''age'', JNum 31), (''meta'', JObj [(''revision'', JNum 7)])])
        (Some seed) =
        (Inr ''object of 3'',
         Some [(''users'', [[(''$loki'', JNum 5), (''age'', JNum 31), (''tags'', JArr [JStr ''a''])]])])
   \<and> processUpdate memWorld ''users'' (JObj [(''$loki'', JNum 5), (''age'', JNum 31)]) (Some seed) =
        (Inr ''object of 3'',
         Some [(''users'', [[(''$loki'', JNum 5), (''age'', JNum 31), (''tags'', JArr [JStr ''a''])]])])"
proof -
  define delta where "delta = [(''$loki'', JNum 5), (''age'', JNum (31::rat))]"
  define doc where "doc = [(''$loki'', JNum 5), (''age'', JNum 30), (''tags'', JArr [JStr ''a''])]"
  define merged where "merged = [(''$loki'', JNum 5), (''age'', JNum 31), (''tags'', JArr [JStr ''a''])]"
  define sent where
    "sent = JObj [(''$loki'', JNum 5), (''age'', JNum 31), (''meta'', JObj [(''revision'', JNum 7)])]"
  have h1: "updatePayload memWorld sent = Inr (JObj delta)"
    by (simp add: updatePayload_def parseIfString_def hasOwnProperty_def sent_def delta_def
          AList.delete_eq)
  have h1': "updatePayload memWorld (JObj delta) = Inr (JObj delta)"
    by (simp add: updatePayload_def parseIfString_def hasOwnProperty_def delta_def)
  have h2: "distinct (map fst delta)"
    by (simp add: delta_def)
  have h3: "hasCollection memWorld seed ''users''"
    by (simp add: memWorld_def seed_def)
  have id5: "getProp (JObj delta) ''$loki'' = JNum 5"
    by (simp add: getProp_def delta_def)
  have h4: "collGet memWorld seed ''users'' (getProp (JObj delta) ''$loki'') = Inr (Some doc)"
    by (simp add: id5 memWorld_def memGet_def memDocs_def seed_def doc_def)
  have a: "assign doc (JObj delta) = merged"
    by (simp add: assign_def doc_def delta_def merged_def)
  have poke: "collPoke memWorld seed ''users'' (JNum 5) merged = [(''users'', [merged])]"
    by (simp add: memWorld_def memPoke_def memDocs_def seed_def merged_def)
  have upd: "collUpdate memWorld [(''users'', [merged])] ''users'' (JObj merged) =
               (Inr (JObj merged), [(''users'', [merged])])"
    by (simp add: memWorld_def memUpdate_def memPoke_def memDocs_def getProp_def merged_def)
  have str: "jsonStringify memWorld (JObj merged) = ''object of 3''"
    by (simp add: memWorld_def merged_def decimal.simps digit_def)
  have r: "processUpdate memWorld ''users'' sent (Some seed) =
             (Inr ''object of 3'', Some [(''users'', [merged])])"
    using processUpdate_merges [OF h1 h2 h3 h4]
    by (simp add: id5 a poke upd str)
  have r': "processUpdate memWorld ''users'' (JObj delta) (Some seed) =
             (Inr ''object of 3'', Some [(''users'', [merged])])"
    using processUpdate_merges [OF h1' h2 h3 h4]
    by (simp add: id5 a poke upd str)
  have g: "collGet memWorld seed ''users'' (JNum 5) = Inr (Some doc)"
    using h4 by (simp add: id5)
  show ?thesis
    using h1 h2 h3 g a r r'
    unfolding delta_def doc_def merged_def sent_def
    by simp
qed

section \<open>shutdown\<close>

lemma closeFiles_all:
  assumes ok: "\<And>db. \<exists>db'. dbClose w db = Inr db'"
  shows "\<exists>files'. closeFiles w files = (None, files', liveFiles files)
            \<and> liveFiles files' = liveFiles files \<and> map fst files' = map fst files"
proof (induction files)
  case Nil
  show ?case by (simp add: liveFiles_def)
next
  case (Cons fe files)
  obtain instName dbreg where fe: "fe = (instName, dbreg)" by (cases fe)
  from Cons.IH obtain files' where ih: "closeFiles w files = (None, files', liveFiles files)"
    and live: "liveFiles files' = liveFiles files" and names: "map fst files' = map fst files"
    by blast
  show ?case
  proof (cases "dbInstance dbreg")
    case None
    then show ?thesis
      using fe ih live names by (simp add: liveFiles_def)
  next
    case (Some h)
    from ok obtain db' where cl: "dbClose w (content h) = Inr db'" by blast
    show ?thesis
      using fe ih live names Some cl by (simp add: liveFiles_def)
  qed
qed

lemma closeServices_all:
  assumes ok: "\<And>db. \<exists>db'. dbClose w db = Inr db'"
  shows "\<exists>reg'. closeServices w reg = (None, reg', liveKeys reg)
            \<and> liveKeys reg' = liveKeys reg \<and> map fst reg' = map fst reg"
proof (induction reg)
  case Nil
  show ?case by (simp add: liveKeys_def)
next
  case (Cons sf reg)
  obtain initName files where sf: "sf = (initName, files)" by (cases sf)
  from closeFiles_all [OF ok, of files] obtain files' where
    cf: "closeFiles w files = (None, files', liveFiles files)"
    and lf: "liveFiles files' = liveFiles files" by blast
  from Cons.IH obtain reg' where ih: "closeServices w reg = (None, reg', liveKeys reg)"
    and live: "liveKeys reg' = liveKeys reg" and names: "map fst reg' = map fst reg"
    by blast
  show ?case
    using sf cf lf ih live names by (simp add: liveKeys_def)
qed

text \<open>
  C7, as the code has it. When the store's \<open>close\<close> does not throw, one shutdown
  call throws nothing, closes each entry whose instance is not null once, in registry
  order, and calls the host's callback with \<open>null\<close> once per store closed, so not at
  all when nothing is registered: then the module is left exactly as it was. It removes
  no entry and nulls no instance, so a second call does not throw either and closes the
  same stores once more.
\<close>

theorem shutdown_closes_each_once:
  assumes "\<forall>db. \<exists>db'. dbClose w db = Inr db'"
  shows "fst (shutdown w s) = None
       \<and> closeCalls (snd (shutdown w s)) = closeCalls s @ liveKeys (databaseRegistry s)
       \<and> callbacks (snd (shutdown w s)) =
           callbacks s @ map (\<lambda>key. (Shutdown, JNull, JUndefined)) (liveKeys (databaseRegistry s))
       \<and> liveKeys (databaseRegistry (snd (shutdown w s))) = liveKeys (databaseRegistry s)
       \<and> map fst (databaseRegistry (snd (shutdown w s))) = map fst (databaseRegistry s)
       \<and> (databaseRegistry s = [] \<longrightarrow> shutdown w s = (None, s))
       \<and> fst (shutdown w (snd (shutdown w s))) = None
       \<and> closeCalls (snd (shutdown w (snd (shutdown w s)))) =
           closeCalls s @ liveKeys (databaseRegistry s) @ liveKeys (databaseRegistry s)"
proof -
  have ok: "\<And>db. \<exists>db'. dbClose w db = Inr db'" using assms by blast
  have one: "\<exists>reg'. shutdown w t =
               (None, t\<lparr>databaseRegistry := reg',
                        closeCalls := closeCalls t @ liveKeys (databaseRegistry t),
                        callbacks := callbacks t @
                          map (\<lambda>key. (Shutdown, JNull, JUndefined)) (liveKeys (databaseRegistry t))\<rparr>)
               \<and> liveKeys reg' = liveKeys (databaseRegistry t)
               \<and> map fst reg' = map fst (databaseRegistry t)" for t :: "'a service"
    using closeServices_all [OF ok, of "databaseRegistry t"]
    by (auto simp: shutdown_def)
  from one [of s] obtain reg' where
    s1: "shutdown w s =
           (None, s\<lparr>databaseRegistry := reg',
                    closeCalls := closeCalls s @ liveKeys (databaseRegistry s),
                    callbacks := callbacks s @
                      map (\<lambda>key. (Shutdown, JNull, JUndefined)) (liveKeys (databaseRegistry s))\<rparr>)"
    and l1: "liveKeys reg' = liveKeys (databaseRegistry s)"
    and n1: "map fst reg' = map fst (databaseRegistry s)"
    by blast
  define s' where "s' = snd (shutdown w s)"
  have first: "shutdown w s = (None, s')"
    using s1 by (simp add: s'_def)
  have reg: "databaseRegistry s' = reg'"
    and cc: "closeCalls s' = closeCalls s @ liveKeys (databaseRegistry s)"
    and cb: "callbacks s' = callbacks s @
               map (\<lambda>key. (Shutdown, JNull, JUndefined)) (liveKeys (databaseRegistry s))"
    using s1 by (simp_all add: s'_def)
  from one [of s'] obtain reg'' where
    s2: "shutdown w s' =
           (None, s'\<lparr>databaseRegistry := reg'',
                    closeCalls := closeCalls s' @ liveKeys (databaseRegistry s'),
                    callbacks := callbacks s' @
                      map (\<lambda>key. (Shutdown, JNull, JUndefined)) (liveKeys (databaseRegistry s'))\<rparr>)"
    by blast
  have second: "fst (shutdown w s') = None"
    and again: "closeCalls (snd (shutdown w s')) =
                  closeCalls s @ liveKeys (databaseRegistry s) @ liveKeys (databaseRegistry s)"
    using s2 by (simp_all add: reg cc l1)
  have empty: "databaseRegistry s = [] \<longrightarrow> shutdown w s = (None, s)"
    by (simp add: shutdown_def liveKeys_def)
  show ?thesis
    unfolding first snd_conv fst_conv
    using second again empty first by (simp add: reg cc cb l1 n1)
qed

theorem shutdown_closes_each_once_witness:
  "(\<forall>db. \<exists>db'. dbClose memWorld db = Inr db')
   \<and> shutdown memWorld servingSeed =
       (None, servingSeed\<lparr>closeCalls := [(''sync.init.js'', ''./demo1.db'')],
                          callbacks := [(Shutdown, JNull, JUndefined)]\<rparr>)
   \<and> closeCalls (snd (shutdown memWorld (snd (shutdown memWorld servingSeed)))) =
       [(''sync.init.js'', ''./demo1.db''), (''sync.init.js'', ''./demo1.db'')]"
proof -
  have h: "\<forall>db. \<exists>db'. dbClose memWorld db = Inr db'"
    by (simp add: memWorld_def)
  have lk: "liveKeys (databaseRegistry servingSeed) = [(''sync.init.js'', ''./demo1.db'')]"
    by (simp add: servingSeed_def freshService_def liveKeys_def liveFiles_def)
  have cc: "closeCalls servingSeed = []"
    by (simp add: servingSeed_def freshService_def)
  have sh: "shutdown memWorld servingSeed =
       (None, servingSeed\<lparr>closeCalls := [(''sync.init.js'', ''./demo1.db'')],
                          callbacks := [(Shutdown, JNull, JUndefined)]\<rparr>)"
    by (simp add: shutdown_def servingSeed_def freshService_def memWorld_def)
  show ?thesis
    using h sh shutdown_closes_each_once [OF h, of servingSeed]
    by (simp add: lk cc)
qed

text \<open>
  C7. The claim has shutdown report completion also when the registry is empty. The
  host's callback is only called inside the loop, once per store closed: on the module
  as loaded it is never called.
\<close>

theorem shutdown_empty_counterexample:
  "shutdown memWorld freshService = (None, freshService)
   \<and> callbacks (freshService :: memStore service) = []"
  by (simp add: shutdown_def freshService_def)

section \<open>The registry under its updates\<close>

lemma lookupEntry_setEntry:
  "lookupEntry (setEntry a b e reg) a' b' =
     (if a' = a \<and> b' = b \<and> map_of reg a \<noteq> None then Some e else lookupEntry reg a' b')"
  by (auto simp: lookupEntry_def setEntry_def update_conv' split: option.splits)

lemma lookupEntry_append_service:
  "map_of reg a = None \<Longrightarrow> lookupEntry (reg @ [(a, [])]) a' b' = lookupEntry reg a' b'"
  by (auto simp: lookupEntry_def map_add_def split: option.splits)



lemma sumTotals_setEntry_absent:
  "map_of reg a = None \<Longrightarrow> sumTotals (setEntry a b e reg) = sumTotals reg"
  by (simp add: setEntry_def)


section \<open>Global and per-instance statistics\<close>

lemma lookupEntry_SomeD:
  "lookupEntry reg a b = Some e \<Longrightarrow> \<exists>files. map_of reg a = Some files \<and> map_of files b = Some e"
  by (auto simp: lookupEntry_def split: option.splits)



lemma writeBack_cases:
  obtains (same) "writeBack a b dbo s = s"
  | (changed) e h db where "lookupEntry (databaseRegistry s) a b = Some e"
      and "dbInstance e = Some h" and "dbo = Some db"
      and "writeBack a b dbo s =
             s\<lparr>databaseRegistry :=
                  setEntry a b (e\<lparr>dbInstance := Some (h\<lparr>content := db\<rparr>)\<rparr>) (databaseRegistry s)\<rparr>"
proof (cases "lookupEntry (databaseRegistry s) a b")
  case None
  then show ?thesis by (intro same) (simp add: writeBack_def)
next
  case (Some e)
  show ?thesis
  proof (cases "dbInstance e")
    case None
    then show ?thesis using Some by (intro same) (simp add: writeBack_def)
  next
    case h: (Some h)
    show ?thesis
    proof (cases dbo)
      case None
      then show ?thesis using Some h by (intro same) (simp add: writeBack_def)
    next
      case db: (Some db)
      show ?thesis
        by (rule changed [OF Some h db]) (simp add: writeBack_def Some h db)
    qed
  qed
qed













lemma callback_throws:
  assumes "runCont w k (map_option content h) = (Inl er, dbo)"
  shows "callback w req k h s =
           (Some er, writeBack (serviceOf req) (fileOf req) dbo
                       (s\<lparr>observed := observed s @ [(req, map_option ident h)]\<rparr>))"
  using assms by (simp add: callback_def Let_def)

lemma invoke_registered:
  assumes "lookupEntry (databaseRegistry s) (serviceOf req) (fileOf req) = Some e"
    and "prepare w req = Inr k"
  shows "invoke w req s = callback w req k (dbInstance e) (startTiming w s)"
proof -
  have "lookupEntry (databaseRegistry (startTiming w s)) (serviceOf req) (fileOf req) = Some e"
    using assms(1) by (simp add: startTiming_def)
  from getDatabase_registered [OF this]
  show ?thesis using assms(2) by (simp add: invoke_def Let_def)
qed





section \<open>The host's callback\<close>


lemma stopTiming_fst:
  "fst (stopTiming w n a b s) = None \<or> fst (stopTiming w n a b s) = Some TypeError"
  by (simp add: stopTiming_def Let_def split: option.splits)



lemma construct_frame:
  "callbacks (snd (construct d s)) = callbacks s"
  "serviceStats (snd (construct d s)) = serviceStats s"
  "databaseRegistry (snd (construct d s)) = databaseRegistry s"
  "pendingInits (snd (construct d s)) = pendingInits s"
  "initCalls (snd (construct d s)) = initCalls s"
  "observed (snd (construct d s)) = observed s"
  by (simp_all add: construct_def split: option.splits)








section \<open>Parameters that fail to parse\<close>




lemma callback_at_entry:
  assumes "lookupEntry (databaseRegistry s) (serviceOf req) (fileOf req) = Some e"
    and "runCont w k (map_option content (dbInstance e)) = (Inl er, map_option content (dbInstance e))"
  shows "callback w req k (dbInstance e) s =
           (Some er, s\<lparr>observed := observed s @ [(req, map_option ident (dbInstance e))]\<rparr>)"
proof -
  let ?s1 = "s\<lparr>observed := observed s @ [(req, map_option ident (dbInstance e))]\<rparr>"
  have l: "lookupEntry (databaseRegistry ?s1) (serviceOf req) (fileOf req) = Some e"
    using assms(1) by simp
  have "writeBack (serviceOf req) (fileOf req) (map_option content (dbInstance e)) ?s1 = ?s1"
  proof (cases "dbInstance e")
    case None
    then show ?thesis using l by (simp add: writeBack_def)
  next
    case (Some h)
    then show ?thesis using writeBack_same [OF l Some] by simp
  qed
  then show ?thesis
    using callback_throws [OF assms(2), of req s] by simp
qed



section \<open>One construction per key\<close>

lemma identAt_setEntry:
  "map_of (databaseRegistry s) a \<noteq> None \<Longrightarrow>
   identAt (s\<lparr>databaseRegistry := setEntry a b e (databaseRegistry s)\<rparr>) key =
     (if key = (a, b) then Some (map_option ident (dbInstance e)) else identAt s key)"
  by (cases key) (auto simp: identAt_def lookupEntry_setEntry)

lemma hasService_setEntry:
  "map_of (setEntry a b e reg) a' = None \<longleftrightarrow> map_of reg a' = None"
  by (auto simp: setEntry_def update_conv' split: option.splits)

lemma writeBack_frame2:
  "identAt (writeBack a b dbo s) key = identAt s key"
  "pendingInits (writeBack a b dbo s) = pendingInits s"
  "initCalls (writeBack a b dbo s) = initCalls s"
  "observed (writeBack a b dbo s) = observed s"
  "map_of (databaseRegistry (writeBack a b dbo s)) a' = None \<longleftrightarrow> map_of (databaseRegistry s) a' = None"
proof -
  show "identAt (writeBack a b dbo s) key = identAt s key"
  proof (cases a b dbo s rule: writeBack_cases)
    case same
    then show ?thesis by simp
  next
    case (changed e h db)
    from lookupEntry_SomeD [OF changed(1)] have m: "map_of (databaseRegistry s) a \<noteq> None" by auto
    have "identAt s (a, b) = Some (Some (ident h))"
      using changed(1,2) by (simp add: identAt_def)
    then show ?thesis
      using identAt_setEntry [OF m, of b "e\<lparr>dbInstance := Some (h\<lparr>content := db\<rparr>)\<rparr>" key] changed(4)
      by auto
  qed
  show "map_of (databaseRegistry (writeBack a b dbo s)) a' = None \<longleftrightarrow> map_of (databaseRegistry s) a' = None"
    by (cases a b dbo s rule: writeBack_cases) (simp_all add: hasService_setEntry)
qed (auto simp: writeBack_def split: option.splits)

lemma stopTiming_frame2:
  "identAt (snd (stopTiming w n a b s)) key = identAt s key"
  "pendingInits (snd (stopTiming w n a b s)) = pendingInits s"
  "initCalls (snd (stopTiming w n a b s)) = initCalls s"
  "observed (snd (stopTiming w n a b s)) = observed s"
  "map_of (databaseRegistry (snd (stopTiming w n a b s))) a' = None \<longleftrightarrow> map_of (databaseRegistry s) a' = None"
proof -
  show "identAt (snd (stopTiming w n a b s)) key = identAt s key"
  proof (cases "lookupEntry (databaseRegistry s) a b")
    case None
    then show ?thesis by (simp add: stopTiming_def Let_def identAt_def)
  next
    case (Some e)
    from lookupEntry_SomeD [OF Some] have m: "map_of (databaseRegistry s) a \<noteq> None" by auto
    let ?s1 = "s\<lparr>hrReads := hrReads s + 1,
                 serviceStats := addRequest n (hrtimeMS w (hrReads s) - started s) (serviceStats s)\<rparr>"
    have m1: "map_of (databaseRegistry ?s1) a \<noteq> None" using m by simp
    have i1: "identAt ?s1 = identAt s" by (simp add: identAt_def fun_eq_iff)
    have "identAt s (a, b) = Some (map_option ident (dbInstance e))"
      using Some by (simp add: identAt_def)
    then show ?thesis
      using identAt_setEntry [OF m1, of b "e\<lparr>stats := addRequest n (hrtimeMS w (hrReads s) - started s) (stats e)\<rparr>" key]
        Some i1
      by (auto simp: stopTiming_def Let_def)
  qed
  show "map_of (databaseRegistry (snd (stopTiming w n a b s))) a' = None \<longleftrightarrow> map_of (databaseRegistry s) a' = None"
    by (simp add: stopTiming_def Let_def hasService_setEntry split: option.splits)
qed (simp_all add: stopTiming_def Let_def split: option.splits)

lemma callback_footprint:
  "identAt (snd (callback w req k h s)) key = identAt s key"
  "pendingInits (snd (callback w req k h s)) = pendingInits s"
  "initCalls (snd (callback w req k h s)) = initCalls s"
  "observed (snd (callback w req k h s)) = observed s @ [(req, map_option ident h)]"
  "map_of (databaseRegistry (snd (callback w req k h s))) a' = None \<longleftrightarrow> map_of (databaseRegistry s) a' = None"
proof -
  obtain r dbo where rc: "runCont w k (map_option content h) = (r, dbo)"
    by (cases "runCont w k (map_option content h)")
  let ?s1 = "s\<lparr>observed := observed s @ [(req, map_option ident h)]\<rparr>"
  let ?s2 = "writeBack (serviceOf req) (fileOf req) dbo ?s1"
  obtain er s3 where st: "stopTiming w (statOf req) (serviceOf req) (fileOf req) ?s2 = (er, s3)"
    by (cases "stopTiming w (statOf req) (serviceOf req) (fileOf req) ?s2")
  have i1: "identAt ?s1 key = identAt s key" by (simp add: identAt_def)
  have f2: "identAt ?s2 key = identAt s key" "pendingInits ?s2 = pendingInits s"
    "initCalls ?s2 = initCalls s" "observed ?s2 = observed s @ [(req, map_option ident h)]"
    "map_of (databaseRegistry ?s2) a' = None \<longleftrightarrow> map_of (databaseRegistry s) a' = None"
    using i1 by (simp_all add: writeBack_frame2)
  have f3: "identAt s3 key = identAt s key" "pendingInits s3 = pendingInits s"
    "initCalls s3 = initCalls s" "observed s3 = observed s @ [(req, map_option ident h)]"
    "map_of (databaseRegistry s3) a' = None \<longleftrightarrow> map_of (databaseRegistry s) a' = None"
    using stopTiming_frame2 [of w "statOf req" "serviceOf req" "fileOf req" ?s2] st f2
    by simp_all
  have f4: "identAt (s3\<lparr>callbacks := c\<rparr>) key = identAt s key" for c
    using f3(1) by (simp add: identAt_def)
  consider (threw) "snd (callback w req k h s) = ?s2"
    | (untimed) "snd (callback w req k h s) = s3"
    | (replied) c where "snd (callback w req k h s) = s3\<lparr>callbacks := c\<rparr>"
  proof (cases r)
    case (Inl e)
    then have "snd (callback w req k h s) = ?s2"
      using rc by (simp add: callback_def Let_def)
    then show ?thesis by (rule threw)
  next
    case (Inr response)
    show ?thesis
    proof (cases er)
      case None
      then have "snd (callback w req k h s) =
                   s3\<lparr>callbacks := callbacks s3 @ [(Data req, JNull, JStr response)]\<rparr>"
        using rc st Inr by (simp add: callback_def Let_def)
      then show ?thesis by (rule replied)
    next
      case (Some e)
      then have "snd (callback w req k h s) = s3"
        using rc st Inr by (simp add: callback_def Let_def)
      then show ?thesis by (rule untimed)
    qed
  qed
  note shape = this
  show "identAt (snd (callback w req k h s)) key = identAt s key"
    by (rule shape) (simp_all only: f2(1) f3(1) f4)
  show "pendingInits (snd (callback w req k h s)) = pendingInits s"
    by (rule shape) (simp_all add: f2(2) f3(2))
  show "initCalls (snd (callback w req k h s)) = initCalls s"
    by (rule shape) (simp_all add: f2(3) f3(3))
  show "observed (snd (callback w req k h s)) = observed s @ [(req, map_option ident h)]"
    by (rule shape) (simp_all add: f2(4) f3(4))
  show "map_of (databaseRegistry (snd (callback w req k h s))) a' = None \<longleftrightarrow> map_of (databaseRegistry s) a' = None"
    by (rule shape) (simp_all add: f2(5) f3(5))
qed

lemma initCallback_footprint:
  assumes "map_of (databaseRegistry s) (serviceOf req) \<noteq> None"
  shows "identAt (snd (initCallback w req k h s)) key =
           (if key = keyOf req then Some (map_option ident h) else identAt s key)"
    and "pendingInits (snd (initCallback w req k h s)) = pendingInits s"
    and "initCalls (snd (initCallback w req k h s)) = initCalls s"
    and "observed (snd (initCallback w req k h s)) = observed s @ [(req, map_option ident h)]"
    and "map_of (databaseRegistry (snd (initCallback w req k h s))) a' = None \<longleftrightarrow> map_of (databaseRegistry s) a' = None"
proof -
  from assms obtain files where fs: "map_of (databaseRegistry s) (serviceOf req) = Some files" by auto
  let ?e = "\<lparr>dbInstance = h, stats = zeroStats\<rparr>"
  let ?s1 = "s\<lparr>databaseRegistry := setEntry (serviceOf req) (fileOf req) ?e (databaseRegistry s)\<rparr>"
  have eq: "initCallback w req k h s = callback w req k h ?s1"
    using fs by (simp add: initCallback_def)
  show "identAt (snd (initCallback w req k h s)) key =
           (if key = keyOf req then Some (map_option ident h) else identAt s key)"
    using identAt_setEntry [OF assms, of "fileOf req" ?e key]
    by (simp add: eq callback_footprint keyOf_def)
  show "pendingInits (snd (initCallback w req k h s)) = pendingInits s"
    and "initCalls (snd (initCallback w req k h s)) = initCalls s"
    and "observed (snd (initCallback w req k h s)) = observed s @ [(req, map_option ident h)]"
    by (simp_all add: eq callback_footprint)
  show "map_of (databaseRegistry (snd (initCallback w req k h s))) a' = None \<longleftrightarrow> map_of (databaseRegistry s) a' = None"
    by (simp add: eq callback_footprint hasService_setEntry)
qed

lemma getDatabase_shape:
  fixes s :: "'db service"
  obtains
    (hit) e where "lookupEntry (databaseRegistry s) (serviceOf req) (fileOf req) = Some e"
      and "getDatabase w req k s = callback w req k (dbInstance e) s"
  | (noinit) s1 where "lookupEntry (databaseRegistry s) (serviceOf req) (fileOf req) = None"
      and "snd (getDatabase w req k s) = s1"
      and "\<And>key. identAt s1 key = identAt s key" and "pendingInits s1 = pendingInits s"
      and "observed s1 = observed s"
      and "initCalls s1 = initCalls s \<or> initCalls s1 = initCalls s @ [(serviceOf req, fileOf req, False)]"
      and "\<And>a. map_of (databaseRegistry s) a \<noteq> None \<Longrightarrow> map_of (databaseRegistry s1) a \<noteq> None"
  | (sync) h s3 where "lookupEntry (databaseRegistry s) (serviceOf req) (fileOf req) = None"
      and "getDatabase w req k s = initCallback w req k h s3"
      and "\<And>key. identAt s3 key = identAt s key" and "pendingInits s3 = pendingInits s"
      and "observed s3 = observed s"
      and "initCalls s3 = initCalls s @ [(serviceOf req, fileOf req, True)]"
      and "map_of (databaseRegistry s3) (serviceOf req) \<noteq> None"
      and "\<And>a. map_of (databaseRegistry s) a \<noteq> None \<Longrightarrow> map_of (databaseRegistry s3) a \<noteq> None"
  | (async) h s3 where "lookupEntry (databaseRegistry s) (serviceOf req) (fileOf req) = None"
      and "snd (getDatabase w req k s) = s3\<lparr>pendingInits := pendingInits s3 @ [(req, k, h)]\<rparr>"
      and "\<And>key. identAt s3 key = identAt s key" and "pendingInits s3 = pendingInits s"
      and "observed s3 = observed s"
      and "initCalls s3 = initCalls s @ [(serviceOf req, fileOf req, True)]"
      and "map_of (databaseRegistry s3) (serviceOf req) \<noteq> None"
      and "\<And>a. map_of (databaseRegistry s) a \<noteq> None \<Longrightarrow> map_of (databaseRegistry s3) a \<noteq> None"
proof -
  let ?a = "serviceOf req" and ?b = "fileOf req"
  define s1 where "s1 = (case map_of (databaseRegistry s) ?a of
                  None \<Rightarrow> s\<lparr>databaseRegistry := databaseRegistry s @ [(?a, [])]\<rparr>
                | Some files \<Rightarrow> s)"
  have l1: "\<And>a b. lookupEntry (databaseRegistry s1) a b = lookupEntry (databaseRegistry s) a b"
    by (simp add: s1_def lookupEntry_append_service split: option.splits)
  have i1: "\<And>key. identAt s1 key = identAt s key"
    by (simp add: identAt_def l1)
  have f1: "pendingInits s1 = pendingInits s" "observed s1 = observed s" "initCalls s1 = initCalls s"
    by (simp_all add: s1_def split: option.splits)
  have m1: "map_of (databaseRegistry s1) ?a \<noteq> None"
    by (auto simp: s1_def map_add_def split: option.splits)
  have k1: "\<And>a. map_of (databaseRegistry s) a \<noteq> None \<Longrightarrow> map_of (databaseRegistry s1) a \<noteq> None"
    by (auto simp: s1_def map_add_def split: option.splits)
  show ?thesis
  proof (cases "lookupEntry (databaseRegistry s) ?a ?b")
    case (Some e)
    show ?thesis
      by (rule hit [OF Some]) (rule getDatabase_registered [OF Some])
  next
    case None
    then have n1: "lookupEntry (databaseRegistry s1) ?a ?b = None" by (simp add: l1)
    show ?thesis
    proof (cases "requireInit w ?a")
      case None' : None
      have g: "snd (getDatabase w req k s) = s1"
        using n1 None' by (simp add: getDatabase_def s1_def [symmetric] Let_def)
      show ?thesis
        by (rule noinit [OF None g]) (use i1 f1 k1 in simp_all)
    next
      case (Some init)
      let ?res = "init ?b (length (initCalls s1))"
      define s2 where "s2 = s1\<lparr>initCalls := initCalls s1 @ [(?a, ?b, case ?res of InitThrows e \<Rightarrow> False | _ \<Rightarrow> True)]\<rparr>"
      have i2: "\<And>key. identAt s2 key = identAt s key"
        using i1 by (simp add: identAt_def s2_def)
      have f2: "pendingInits s2 = pendingInits s" "observed s2 = observed s"
        "databaseRegistry s2 = databaseRegistry s1"
        using f1 by (simp_all add: s2_def)
      show ?thesis
      proof (cases ?res)
        case (InitThrows e)
        have g: "snd (getDatabase w req k s) = s2"
          using n1 Some InitThrows by (simp add: getDatabase_def s1_def [symmetric] s2_def Let_def)
        have c: "initCalls s2 = initCalls s @ [(?a, ?b, False)]"
          using InitThrows f1 by (simp add: s2_def)
        show ?thesis
          by (rule noinit [OF None g]) (use c i2 f2 k1 in simp_all)
      next
        case (InitSync d)
        obtain h s3 where cs: "construct d s2 = (h, s3)" by (cases "construct d s2")
        have r3: "databaseRegistry s3 = databaseRegistry s1"
          and f3: "pendingInits s3 = pendingInits s" "observed s3 = observed s"
            "initCalls s3 = initCalls s @ [(?a, ?b, True)]"
          using construct_frame [of d s2] cs f2 f1 InitSync by (simp_all add: s2_def)
        have i3: "\<And>key. identAt s3 key = identAt s key"
          using i1 r3 by (simp add: identAt_def)
        have g: "getDatabase w req k s = initCallback w req k h s3"
          using n1 Some InitSync cs by (simp add: getDatabase_def s1_def [symmetric] s2_def Let_def)
        show ?thesis
          by (rule sync [OF None g]) (use i3 f3 m1 k1 r3 in simp_all)
      next
        case (InitAsync d)
        obtain h s3 where cs: "construct d s2 = (h, s3)" by (cases "construct d s2")
        have r3: "databaseRegistry s3 = databaseRegistry s1"
          and f3: "pendingInits s3 = pendingInits s" "observed s3 = observed s"
            "initCalls s3 = initCalls s @ [(?a, ?b, True)]"
          using construct_frame [of d s2] cs f2 f1 InitAsync by (simp_all add: s2_def)
        have i3: "\<And>key. identAt s3 key = identAt s key"
          using i1 r3 by (simp add: identAt_def)
        have g: "snd (getDatabase w req k s) = s3\<lparr>pendingInits := pendingInits s3 @ [(req, k, h)]\<rparr>"
          using n1 Some InitAsync cs by (simp add: getDatabase_def s1_def [symmetric] s2_def Let_def)
        show ?thesis
          by (rule async [OF None g]) (use i3 f3 m1 k1 r3 in simp_all)
      qed
    qed
  qed
qed

lemma startTiming_frame:
  "identAt (startTiming w s) key = identAt s key"
  "pendingInits (startTiming w s) = pendingInits s"
  "initCalls (startTiming w s) = initCalls s"
  "observed (startTiming w s) = observed s"
  "databaseRegistry (startTiming w s) = databaseRegistry s"
  by (simp_all add: startTiming_def identAt_def)

text \<open>What a getDatabase call does to the four things the claim is about.\<close>

lemma getDatabase_services:
  assumes "map_of (databaseRegistry s) a \<noteq> None"
  shows "map_of (databaseRegistry (snd (getDatabase w req k s))) a \<noteq> None"
proof (cases rule: getDatabase_shape [where s = s and req = req and w = w and k = k])
  case (hit e)
  then show ?thesis using assms by (simp add: callback_footprint)
next
  case (noinit s1)
  then show ?thesis using assms by simp
next
  case (sync h s3)
  then show ?thesis using assms by (simp add: initCallback_footprint)
next
  case (async h s3)
  then show ?thesis using assms by simp
qed

lemma getDatabase_other:
  assumes "keyOf req \<noteq> key"
  shows "identAt (snd (getDatabase w req k s)) key = identAt s key
       \<and> pendingFor (snd (getDatabase w req k s)) key = pendingFor s key
       \<and> initsFor (snd (getDatabase w req k s)) key = initsFor s key
       \<and> observedFor (snd (getDatabase w req k s)) key = observedFor s key"
proof (cases rule: getDatabase_shape [where s = s and req = req and w = w and k = k])
  case (hit e)
  then show ?thesis using assms
    by (simp add: callback_footprint pendingFor_def initsFor_def observedFor_def)
next
  case (noinit s1)
  then show ?thesis using assms
    by (auto simp: pendingFor_def initsFor_def observedFor_def keyOf_def)
next
  case (sync h s3)
  then show ?thesis using assms
    by (auto simp: initCallback_footprint pendingFor_def initsFor_def observedFor_def keyOf_def)
next
  case (async h s3)
  then show ?thesis using assms
    by (auto simp: pendingFor_def initsFor_def observedFor_def keyOf_def identAt_def)
qed

lemma getDatabase_registered_key:
  assumes "identAt s (keyOf req) = Some x"
  shows "identAt (snd (getDatabase w req k s)) (keyOf req) = Some x
       \<and> pendingFor (snd (getDatabase w req k s)) (keyOf req) = pendingFor s (keyOf req)
       \<and> initsFor (snd (getDatabase w req k s)) (keyOf req) = initsFor s (keyOf req)
       \<and> observedFor (snd (getDatabase w req k s)) (keyOf req) = observedFor s (keyOf req) @ [x]"
proof -
  from assms obtain e where e: "lookupEntry (databaseRegistry s) (serviceOf req) (fileOf req) = Some e"
    and x: "map_option ident (dbInstance e) = x"
    by (auto simp: identAt_def keyOf_def)
  show ?thesis
    using assms x
    by (simp add: getDatabase_registered [OF e] callback_footprint
          pendingFor_def initsFor_def observedFor_def)
qed

lemma getDatabase_first_use:
  assumes "identAt s (keyOf req) = None" and "pendingFor s (keyOf req) = []"
  shows "(identAt (snd (getDatabase w req k s)) (keyOf req) = None
          \<and> pendingFor (snd (getDatabase w req k s)) (keyOf req) = []
          \<and> initsFor (snd (getDatabase w req k s)) (keyOf req) = initsFor s (keyOf req)
          \<and> observedFor (snd (getDatabase w req k s)) (keyOf req) = observedFor s (keyOf req))
       \<or> (\<exists>x. settled (snd (getDatabase w req k s)) (keyOf req) x
             \<and> length (initsFor (snd (getDatabase w req k s)) (keyOf req)) = Suc (length (initsFor s (keyOf req)))
             \<and> (observedFor (snd (getDatabase w req k s)) (keyOf req) = observedFor s (keyOf req)
                 \<or> (observedFor (snd (getDatabase w req k s)) (keyOf req) = observedFor s (keyOf req) @ [x]
                     \<and> identAt (snd (getDatabase w req k s)) (keyOf req) = Some x)))"
proof (cases rule: getDatabase_shape [where s = s and req = req and w = w and k = k])
  case (hit e)
  then show ?thesis using assms(1) by (simp add: identAt_def keyOf_def)
next
  case (noinit s1)
  then have "identAt s1 (keyOf req) = None \<and> pendingFor s1 (keyOf req) = []
          \<and> initsFor s1 (keyOf req) = initsFor s (keyOf req)
          \<and> observedFor s1 (keyOf req) = observedFor s (keyOf req)"
    using assms by (auto simp: pendingFor_def initsFor_def observedFor_def)
  then show ?thesis using noinit(2) by simp
next
  case (sync h s3)
  let ?s' = "snd (getDatabase w req k s)"
  have i: "identAt ?s' (keyOf req) = Some (map_option ident h)"
    and p: "pendingFor ?s' (keyOf req) = []"
    and c: "initsFor ?s' (keyOf req) = initsFor s (keyOf req) @ [(serviceOf req, fileOf req, True)]"
    and ob: "observedFor ?s' (keyOf req) = observedFor s (keyOf req) @ [map_option ident h]"
    using sync assms
    by (simp_all add: initCallback_footprint pendingFor_def initsFor_def observedFor_def keyOf_def)
  have "settled ?s' (keyOf req) (map_option ident h)"
    using i p by (simp add: settled_def)
  then show ?thesis using i c ob by auto
next
  case (async h s3)
  let ?s' = "snd (getDatabase w req k s)"
  have i: "identAt ?s' (keyOf req) = None"
    using async(2,3) assms(1) by (simp add: identAt_def)
  have p: "pendingFor ?s' (keyOf req) = [(req, k, h)]"
    using async(2,4) assms(2) by (simp add: pendingFor_def)
  have c: "initsFor ?s' (keyOf req) = initsFor s (keyOf req) @ [(serviceOf req, fileOf req, True)]"
    using async(2,6) by (simp add: initsFor_def keyOf_def)
  have ob: "observedFor ?s' (keyOf req) = observedFor s (keyOf req)"
    using async(2,5) by (simp add: observedFor_def)
  have m: "map_of (databaseRegistry ?s') (fst (keyOf req)) \<noteq> None"
    using async(2,7) by (simp add: keyOf_def)
  have "settled ?s' (keyOf req) (map_option ident h)"
    using i p m by (simp add: settled_def)
  then show ?thesis using c ob by auto
qed

lemma startTiming_for:
  "pendingFor (startTiming w s) key = pendingFor s key"
  "initsFor (startTiming w s) key = initsFor s key"
  "observedFor (startTiming w s) key = observedFor s key"
  by (simp_all add: pendingFor_def initsFor_def observedFor_def startTiming_frame)

lemma invoke_cases:
  obtains (early) e where "prepare w req = Inl e" and "snd (invoke w req s) = startTiming w s"
  | (late) k where "prepare w req = Inr k"
      and "snd (invoke w req s) = snd (getDatabase w req k (startTiming w s))"
  by (cases "prepare w req") (simp_all add: invoke_def Let_def)

lemma invoke_services:
  assumes "map_of (databaseRegistry s) a \<noteq> None"
  shows "map_of (databaseRegistry (snd (invoke w req s))) a \<noteq> None"
proof (cases rule: invoke_cases [where w = w and req = req and s = s])
  case (early e)
  then show ?thesis using assms by (simp add: startTiming_frame)
next
  case (late k)
  have "map_of (databaseRegistry (startTiming w s)) a \<noteq> None"
    using assms by (simp add: startTiming_frame)
  from getDatabase_services [OF this] show ?thesis using late by simp
qed

lemma invoke_other:
  assumes "keyOf req \<noteq> key"
  shows "identAt (snd (invoke w req s)) key = identAt s key
       \<and> pendingFor (snd (invoke w req s)) key = pendingFor s key
       \<and> initsFor (snd (invoke w req s)) key = initsFor s key
       \<and> observedFor (snd (invoke w req s)) key = observedFor s key"
proof (cases rule: invoke_cases [where w = w and req = req and s = s])
  case (early e)
  then show ?thesis by (simp add: startTiming_frame startTiming_for)
next
  case (late k)
  show ?thesis
    using getDatabase_other [OF assms, of w k "startTiming w s"] late
    by (simp add: startTiming_frame startTiming_for)
qed

lemma invoke_registered_key:
  assumes "identAt s (keyOf req) = Some x"
  shows "identAt (snd (invoke w req s)) (keyOf req) = Some x
       \<and> pendingFor (snd (invoke w req s)) (keyOf req) = pendingFor s (keyOf req)
       \<and> initsFor (snd (invoke w req s)) (keyOf req) = initsFor s (keyOf req)
       \<and> (observedFor (snd (invoke w req s)) (keyOf req) = observedFor s (keyOf req)
           \<or> observedFor (snd (invoke w req s)) (keyOf req) = observedFor s (keyOf req) @ [x])"
proof (cases rule: invoke_cases [where w = w and req = req and s = s])
  case (early e)
  then show ?thesis using assms by (simp add: startTiming_frame startTiming_for)
next
  case (late k)
  have "identAt (startTiming w s) (keyOf req) = Some x"
    using assms by (simp add: startTiming_frame)
  from getDatabase_registered_key [OF this, of w k] show ?thesis
    using late by (simp add: startTiming_frame startTiming_for)
qed

lemma invoke_first_use:
  assumes "identAt s (keyOf req) = None" and "pendingFor s (keyOf req) = []"
  shows "(identAt (snd (invoke w req s)) (keyOf req) = None
          \<and> pendingFor (snd (invoke w req s)) (keyOf req) = []
          \<and> initsFor (snd (invoke w req s)) (keyOf req) = initsFor s (keyOf req)
          \<and> observedFor (snd (invoke w req s)) (keyOf req) = observedFor s (keyOf req))
       \<or> (\<exists>x. settled (snd (invoke w req s)) (keyOf req) x
             \<and> length (initsFor (snd (invoke w req s)) (keyOf req)) = Suc (length (initsFor s (keyOf req)))
             \<and> (observedFor (snd (invoke w req s)) (keyOf req) = observedFor s (keyOf req)
                 \<or> (observedFor (snd (invoke w req s)) (keyOf req) = observedFor s (keyOf req) @ [x]
                     \<and> identAt (snd (invoke w req s)) (keyOf req) = Some x)))"
proof (cases rule: invoke_cases [where w = w and req = req and s = s])
  case (early e)
  then show ?thesis using assms by (simp add: startTiming_frame startTiming_for)
next
  case (late k)
  have a: "identAt (startTiming w s) (keyOf req) = None"
    and b: "pendingFor (startTiming w s) (keyOf req) = []"
    using assms by (simp_all add: startTiming_frame startTiming_for)
  from getDatabase_first_use [OF a b, of w k] show ?thesis
    using late by (simp add: startTiming_for)
qed

lemma filter_remove_other:
  assumes "i < length xs" and "\<not> P (xs ! i)"
  shows "filter P (take i xs @ drop (Suc i) xs) = filter P xs"
proof -
  have "xs = take i xs @ xs ! i # drop (Suc i) xs"
    using assms(1) by (simp add: id_take_nth_drop)
  then have "filter P xs = filter P (take i xs @ xs ! i # drop (Suc i) xs)" by simp
  then show ?thesis using assms(2) by simp
qed

lemma filter_remove_only:
  assumes "i < length xs" and "P (xs ! i)" and "filter P xs = [y]"
  shows "filter P (take i xs @ drop (Suc i) xs) = [] \<and> y = xs ! i"
proof -
  have "xs = take i xs @ xs ! i # drop (Suc i) xs"
    using assms(1) by (simp add: id_take_nth_drop)
  then have "filter P xs = filter P (take i xs) @ xs ! i # filter P (drop (Suc i) xs)"
    using assms(2) by (metis filter.simps(2) filter_append)
  then have "filter P (take i xs) @ xs ! i # filter P (drop (Suc i) xs) = [y]"
    using assms(3) by simp
  then show ?thesis by (auto simp: append_eq_Cons_conv Cons_eq_append_conv)
qed

lemma initComplete_cases:
  obtains (none) "\<not> i < length (pendingInits s)" and "initComplete w i s = (None, s)"
  | (lost) req k h where "i < length (pendingInits s)" and "pendingInits s ! i = (req, k, h)"
      and "map_of (databaseRegistry s) (serviceOf req) = None"
      and "snd (initComplete w i s) =
             s\<lparr>pendingInits := take i (pendingInits s) @ drop (Suc i) (pendingInits s)\<rparr>"
  | (called) req k h where "i < length (pendingInits s)" and "pendingInits s ! i = (req, k, h)"
      and "map_of (databaseRegistry s) (serviceOf req) \<noteq> None"
      and "initComplete w i s =
             initCallback w req k h
               (s\<lparr>pendingInits := take i (pendingInits s) @ drop (Suc i) (pendingInits s)\<rparr>)"
proof (cases "i < length (pendingInits s)")
  case False
  then show ?thesis by (intro none) (simp_all add: initComplete_def)
next
  case True
  obtain req k h where p: "pendingInits s ! i = (req, k, h)" by (cases "pendingInits s ! i")
  show ?thesis
  proof (cases "map_of (databaseRegistry s) (serviceOf req)")
    case None
    show ?thesis
      by (rule lost [OF True p None]) (simp add: initComplete_def initCallback_def True p None)
  next
    case (Some files)
    then have m: "map_of (databaseRegistry s) (serviceOf req) \<noteq> None" by simp
    show ?thesis
      by (rule called [OF True p m]) (simp add: initComplete_def True p)
  qed
qed

lemma initComplete_services:
  assumes "map_of (databaseRegistry s) a \<noteq> None"
  shows "map_of (databaseRegistry (snd (initComplete w i s))) a \<noteq> None"
proof (cases rule: initComplete_cases [where i = i and s = s and w = w])
  case none
  then show ?thesis using assms by simp
next
  case (lost req k h)
  then show ?thesis using assms by simp
next
  case (called req k h)
  let ?s1 = "s\<lparr>pendingInits := take i (pendingInits s) @ drop (Suc i) (pendingInits s)\<rparr>"
  have m: "map_of (databaseRegistry ?s1) (serviceOf req) \<noteq> None" using called(3) by simp
  show ?thesis
    using initCallback_footprint(5) [OF m, of w k h a] assms called(4) by simp
qed

lemma initComplete_other:
  assumes "i < length (pendingInits s) \<Longrightarrow> keyOf (fst (pendingInits s ! i)) \<noteq> key"
  shows "identAt (snd (initComplete w i s)) key = identAt s key
       \<and> pendingFor (snd (initComplete w i s)) key = pendingFor s key
       \<and> initsFor (snd (initComplete w i s)) key = initsFor s key
       \<and> observedFor (snd (initComplete w i s)) key = observedFor s key"
proof (cases rule: initComplete_cases [where i = i and s = s and w = w])
  case none
  then show ?thesis by simp
next
  case (lost req k h)
  have "\<not> (case pendingInits s ! i of (req, k, h) \<Rightarrow> keyOf req = key)"
    using assms lost(1,2) by simp
  from filter_remove_other [where P = "\<lambda>(req, k, h). keyOf req = key", OF lost(1) this]
  show ?thesis
    using lost(4) by (simp add: pendingFor_def initsFor_def observedFor_def identAt_def)
next
  case (called req k h)
  let ?s1 = "s\<lparr>pendingInits := take i (pendingInits s) @ drop (Suc i) (pendingInits s)\<rparr>"
  have ne: "keyOf req \<noteq> key" using assms called(1,2) by simp
  have m: "map_of (databaseRegistry ?s1) (serviceOf req) \<noteq> None" using called(3) by simp
  have "\<not> (case pendingInits s ! i of (req, k, h) \<Rightarrow> keyOf req = key)"
    using ne called(2) by simp
  from filter_remove_other [where P = "\<lambda>(req, k, h). keyOf req = key", OF called(1) this]
  have p: "pendingFor ?s1 key = pendingFor s key" by (simp add: pendingFor_def)
  have i1: "identAt ?s1 key = identAt s key" by (simp add: identAt_def)
  show ?thesis
    using initCallback_footprint(1-4) [OF m, of w k h] ne p i1 called(4)
    by (auto simp: pendingFor_def initsFor_def observedFor_def)
qed

lemma initComplete_settles:
  assumes "i < length (pendingInits s)" and "keyOf (fst (pendingInits s ! i)) = key"
    and "settled s key x"
  shows "identAt (snd (initComplete w i s)) key = Some x
       \<and> pendingFor (snd (initComplete w i s)) key = []
       \<and> initsFor (snd (initComplete w i s)) key = initsFor s key
       \<and> observedFor (snd (initComplete w i s)) key = observedFor s key @ [x]"
proof -
  obtain req k h where p: "pendingInits s ! i = (req, k, h)" by (cases "pendingInits s ! i")
  have kr: "keyOf req = key" using assms(2) p by simp
  let ?P = "\<lambda>(req, k, h). keyOf req = key"
  have Pi: "?P (pendingInits s ! i)" using p kr by simp
  have "pendingInits s ! i \<in> set (pendingFor s key)"
    using assms(1) Pi by (simp add: pendingFor_def)
  then have ne: "pendingFor s key \<noteq> []" by auto
  from assms(3) ne have none: "identAt s key = None"
    and m: "map_of (databaseRegistry s) (fst key) \<noteq> None"
    and one: "map (\<lambda>(req, k, h). map_option ident h) (pendingFor s key) = [x]"
    by (simp_all add: settled_def)
  from one obtain r' k' h' where only: "pendingFor s key = [(r', k', h')]"
    and x: "map_option ident h' = x"
    by (cases "pendingFor s key") auto
  have f: "filter ?P (pendingInits s) = [(r', k', h')]"
    using only by (simp add: pendingFor_def)
  from filter_remove_only [where P = ?P, OF assms(1) Pi f]
  have gone: "filter ?P (take i (pendingInits s) @ drop (Suc i) (pendingInits s)) = []"
    and same: "(r', k', h') = pendingInits s ! i" by simp_all
  have hx: "map_option ident h = x" using same p x by simp
  let ?s1 = "s\<lparr>pendingInits := take i (pendingInits s) @ drop (Suc i) (pendingInits s)\<rparr>"
  have m1: "map_of (databaseRegistry ?s1) (serviceOf req) \<noteq> None"
    using m kr by (auto simp: keyOf_def)
  have eq: "initComplete w i s = initCallback w req k h ?s1"
    using assms(1) p by (simp add: initComplete_def)
  have p1: "pendingFor ?s1 key = []" using gone by (simp add: pendingFor_def)
  show ?thesis
    using initCallback_footprint(1-4) [OF m1, of w k h] kr hx p1
    by (auto simp: eq pendingFor_def initsFor_def observedFor_def)
qed

lemma settled_transfer:
  assumes "settled s key x" and "identAt s' key = identAt s key"
    and "pendingFor s' key = pendingFor s key"
    and "map_of (databaseRegistry s) (fst key) \<noteq> None \<Longrightarrow> map_of (databaseRegistry s') (fst key) \<noteq> None"
  shows "settled s' key x"
  using assms by (auto simp: settled_def split: if_splits)

lemma step_settled:
  assumes "settled s key x" and "serialFor w key [ev] s"
  shows "settled (snd (step w ev s)) key x
       \<and> initsFor (snd (step w ev s)) key = initsFor s key
       \<and> (observedFor (snd (step w ev s)) key = observedFor s key
           \<or> (observedFor (snd (step w ev s)) key = observedFor s key @ [x]
               \<and> identAt (snd (step w ev s)) key = Some x))
       \<and> (identAt s key = Some x \<longrightarrow> identAt (snd (step w ev s)) key = Some x)"
proof (cases ev)
  case (Invoke req)
  let ?s' = "snd (invoke w req s)"
  have keep: "map_of (databaseRegistry s) (fst key) \<noteq> None \<Longrightarrow> map_of (databaseRegistry ?s') (fst key) \<noteq> None"
    by (rule invoke_services)
  show ?thesis
  proof (cases "keyOf req = key")
    case False
    from invoke_other [OF False, of w s]
    have q: "identAt ?s' key = identAt s key" "pendingFor ?s' key = pendingFor s key"
      "initsFor ?s' key = initsFor s key" "observedFor ?s' key = observedFor s key"
      by simp_all
    have "settled ?s' key x" by (rule settled_transfer [OF assms(1) q(1,2) keep])
    then show ?thesis using Invoke q by simp
  next
    case True
    then have np: "pendingFor s key = []" using assms(2) Invoke by simp
    then have i: "identAt s (keyOf req) = Some x" using assms(1) True by (simp add: settled_def)
    from invoke_registered_key [OF i, of w]
    have q: "identAt ?s' key = Some x" "pendingFor ?s' key = pendingFor s key"
      "initsFor ?s' key = initsFor s key"
      "observedFor ?s' key = observedFor s key \<or> observedFor ?s' key = observedFor s key @ [x]"
      using True by simp_all
    have "settled ?s' key x" using q(1,2) np by (simp add: settled_def)
    then show ?thesis using Invoke q by auto
  qed
next
  case (InitComplete i)
  let ?s' = "snd (initComplete w i s)"
  have keep: "map_of (databaseRegistry s) (fst key) \<noteq> None \<Longrightarrow> map_of (databaseRegistry ?s') (fst key) \<noteq> None"
    by (rule initComplete_services)
  show ?thesis
  proof (cases "i < length (pendingInits s) \<and> keyOf (fst (pendingInits s ! i)) = key")
    case False
    then have "i < length (pendingInits s) \<Longrightarrow> keyOf (fst (pendingInits s ! i)) \<noteq> key" by simp
    from initComplete_other [OF this, of w]
    have q: "identAt ?s' key = identAt s key" "pendingFor ?s' key = pendingFor s key"
      "initsFor ?s' key = initsFor s key" "observedFor ?s' key = observedFor s key"
      by simp_all
    have "settled ?s' key x" by (rule settled_transfer [OF assms(1) q(1,2) keep])
    then show ?thesis using InitComplete q by simp
  next
    case True
    then have a: "i < length (pendingInits s)" and b: "keyOf (fst (pendingInits s ! i)) = key"
      by simp_all
    from initComplete_settles [OF a b assms(1), of w]
    have q: "identAt ?s' key = Some x" "pendingFor ?s' key = []"
      "initsFor ?s' key = initsFor s key" "observedFor ?s' key = observedFor s key @ [x]"
      by simp_all
    have "settled ?s' key x" using q(1,2) by (simp add: settled_def)
    then show ?thesis using InitComplete q by simp
  qed
qed

lemma serialFor_Cons:
  "serialFor w key (ev # evs) s \<longleftrightarrow> serialFor w key [ev] s \<and> serialFor w key evs (snd (step w ev s))"
  by (cases ev) simp_all

lemma run_settled:
  "settled s key x \<Longrightarrow> serialFor w key evs s \<Longrightarrow>
     settled (run w evs s) key x
     \<and> initsFor (run w evs s) key = initsFor s key
     \<and> (\<exists>n. observedFor (run w evs s) key = observedFor s key @ replicate n x
             \<and> (0 < n \<longrightarrow> identAt (run w evs s) key = Some x))
     \<and> (identAt s key = Some x \<longrightarrow> identAt (run w evs s) key = Some x)"
proof (induction evs arbitrary: s)
  case Nil
  then show ?case by simp
next
  case (Cons ev evs)
  let ?s1 = "snd (step w ev s)"
  have one: "serialFor w key [ev] s" and rest: "serialFor w key evs ?s1"
    using Cons.prems(2) serialFor_Cons [of w key ev evs s] by blast+
  from step_settled [OF Cons.prems(1) one]
  have st: "settled ?s1 key x" and ic: "initsFor ?s1 key = initsFor s key"
    and ob: "observedFor ?s1 key = observedFor s key
             \<or> (observedFor ?s1 key = observedFor s key @ [x] \<and> identAt ?s1 key = Some x)"
    and id: "identAt s key = Some x \<longrightarrow> identAt ?s1 key = Some x"
    by simp_all
  from Cons.IH [OF st rest] obtain n where
    st': "settled (run w evs ?s1) key x" and ic': "initsFor (run w evs ?s1) key = initsFor ?s1 key"
    and ob': "observedFor (run w evs ?s1) key = observedFor ?s1 key @ replicate n x"
    and pos: "0 < n \<longrightarrow> identAt (run w evs ?s1) key = Some x"
    and id': "identAt ?s1 key = Some x \<longrightarrow> identAt (run w evs ?s1) key = Some x"
    by blast
  have r: "run w (ev # evs) s = run w evs ?s1" by simp
  have A: "settled (run w (ev # evs) s) key x" using st' by (simp only: r)
  have B: "initsFor (run w (ev # evs) s) key = initsFor s key" using ic ic' by (simp only: r)
  have D: "identAt s key = Some x \<longrightarrow> identAt (run w (ev # evs) s) key = Some x"
    using id id' by (simp add: r)
  have C: "\<exists>m. observedFor (run w (ev # evs) s) key = observedFor s key @ replicate m x
             \<and> (0 < m \<longrightarrow> identAt (run w (ev # evs) s) key = Some x)"
    using ob
  proof
    assume "observedFor ?s1 key = observedFor s key"
    then have "observedFor (run w (ev # evs) s) key = observedFor s key @ replicate n x
               \<and> (0 < n \<longrightarrow> identAt (run w (ev # evs) s) key = Some x)"
      using ob' pos by (simp add: r)
    then show ?thesis by (rule exI)
  next
    assume a: "observedFor ?s1 key = observedFor s key @ [x] \<and> identAt ?s1 key = Some x"
    then have "observedFor (run w (ev # evs) s) key = observedFor s key @ replicate (Suc n) x
               \<and> (0 < Suc n \<longrightarrow> identAt (run w (ev # evs) s) key = Some x)"
      using ob' id' by (simp add: r replicate_app_Cons_same)
    then show ?thesis by (rule exI)
  qed
  show ?case using A B C D by (intro conjI)
qed

lemma step_unsettled:
  assumes "identAt s key = None" and "pendingFor s key = []"
  shows "(identAt (snd (step w ev s)) key = None \<and> pendingFor (snd (step w ev s)) key = []
          \<and> initsFor (snd (step w ev s)) key = initsFor s key
          \<and> observedFor (snd (step w ev s)) key = observedFor s key)
       \<or> (\<exists>x. settled (snd (step w ev s)) key x
             \<and> length (initsFor (snd (step w ev s)) key) = Suc (length (initsFor s key))
             \<and> (observedFor (snd (step w ev s)) key = observedFor s key
                 \<or> (observedFor (snd (step w ev s)) key = observedFor s key @ [x]
                     \<and> identAt (snd (step w ev s)) key = Some x)))"
proof (cases ev)
  case (Invoke req)
  show ?thesis
  proof (cases "keyOf req = key")
    case True
    show ?thesis
      using invoke_first_use [of s req w] assms True Invoke by simp
  next
    case False
    show ?thesis
      using invoke_other [OF False, of w s] assms Invoke by simp
  qed
next
  case (InitComplete i)
  have "keyOf (fst (pendingInits s ! i)) \<noteq> key" if "i < length (pendingInits s)"
  proof
    assume k: "keyOf (fst (pendingInits s ! i)) = key"
    have "pendingInits s ! i \<in> set (pendingFor s key)"
      using that k by (auto simp: pendingFor_def split: prod.splits)
    then show False using assms(2) by simp
  qed
  from initComplete_other [OF this, of w]
  show ?thesis using assms InitComplete by simp
qed

lemma run_unsettled:
  "identAt s key = None \<Longrightarrow> pendingFor s key = [] \<Longrightarrow> serialFor w key evs s \<Longrightarrow>
     length (initsFor (run w evs s) key) \<le> Suc (length (initsFor s key))
     \<and> (\<exists>x n. observedFor (run w evs s) key = observedFor s key @ replicate n x
               \<and> (0 < n \<longrightarrow> identAt (run w evs s) key = Some x))"
proof (induction evs arbitrary: s)
  case Nil
  have "observedFor s key = observedFor s key @ replicate 0 None
        \<and> (0 < (0::nat) \<longrightarrow> identAt s key = Some None)" by simp
  then show ?case by (simp del: replicate.simps)
next
  case (Cons ev evs)
  let ?s1 = "snd (step w ev s)"
  have r: "run w (ev # evs) s = run w evs ?s1" by simp
  have rest: "serialFor w key evs ?s1"
    using Cons.prems(3) serialFor_Cons [of w key ev evs s] by blast
  from step_unsettled [OF Cons.prems(1,2), of w ev]
  show ?case
  proof
    assume a: "identAt ?s1 key = None \<and> pendingFor ?s1 key = []
          \<and> initsFor ?s1 key = initsFor s key \<and> observedFor ?s1 key = observedFor s key"
    then have 1: "identAt ?s1 key = None" and 2: "pendingFor ?s1 key = []" by simp_all
    from Cons.IH [OF 1 2 rest] a show ?thesis by (simp add: r)
  next
    assume "\<exists>x. settled ?s1 key x
             \<and> length (initsFor ?s1 key) = Suc (length (initsFor s key))
             \<and> (observedFor ?s1 key = observedFor s key
                 \<or> (observedFor ?s1 key = observedFor s key @ [x] \<and> identAt ?s1 key = Some x))"
    then obtain x where st: "settled ?s1 key x"
      and len: "length (initsFor ?s1 key) = Suc (length (initsFor s key))"
      and ob: "observedFor ?s1 key = observedFor s key
                 \<or> (observedFor ?s1 key = observedFor s key @ [x] \<and> identAt ?s1 key = Some x)"
      by blast
    from run_settled [OF st rest] obtain n where
      ic: "initsFor (run w evs ?s1) key = initsFor ?s1 key"
      and ob': "observedFor (run w evs ?s1) key = observedFor ?s1 key @ replicate n x"
      and pos: "0 < n \<longrightarrow> identAt (run w evs ?s1) key = Some x"
      and id': "identAt ?s1 key = Some x \<longrightarrow> identAt (run w evs ?s1) key = Some x"
      by blast
    have L: "length (initsFor (run w (ev # evs) s) key) \<le> Suc (length (initsFor s key))"
      using ic len by (simp add: r)
    have C: "\<exists>x m. observedFor (run w (ev # evs) s) key = observedFor s key @ replicate m x
             \<and> (0 < m \<longrightarrow> identAt (run w (ev # evs) s) key = Some x)"
      using ob
    proof
      assume "observedFor ?s1 key = observedFor s key"
      then have "observedFor (run w (ev # evs) s) key = observedFor s key @ replicate n x
               \<and> (0 < n \<longrightarrow> identAt (run w (ev # evs) s) key = Some x)"
        using ob' pos by (simp add: r)
      then show ?thesis by blast
    next
      assume "observedFor ?s1 key = observedFor s key @ [x] \<and> identAt ?s1 key = Some x"
      then have "observedFor (run w (ev # evs) s) key = observedFor s key @ replicate (Suc n) x
               \<and> (0 < Suc n \<longrightarrow> identAt (run w (ev # evs) s) key = Some x)"
        using ob' id' by (simp add: r replicate_app_Cons_same)
      then show ?thesis by blast
    qed
    show ?thesis using L C by (intro conjI)
  qed
qed

text \<open>
  C1, as the code has it. Take a key with no initialization in flight and a run that is
  serial for the key (no request for it is issued while one of its initializations is in
  flight). Then (1) at most one more \<open>init\<close> call for the key returns: an \<open>init\<close>
  that throws registers nothing and is called again by the next request; (2) if the key
  is registered at the start, no \<open>init\<close> call for it returns during the run and the
  same store stays registered; (3) all getDatabase callbacks of the run's requests for
  the key receive one and the same store, and if any does, that store is the one
  registered under the key at the end.
\<close>

theorem getDatabase_once:
  assumes "pendingFor s key = []" and "serialFor w key evs s"
  shows "length (initsFor (run w evs s) key) \<le> Suc (length (initsFor s key))
       \<and> (registered s key \<longrightarrow> initsFor (run w evs s) key = initsFor s key
                                \<and> identAt (run w evs s) key = identAt s key)
       \<and> (\<exists>x n. observedFor (run w evs s) key = observedFor s key @ replicate n x
                 \<and> (0 < n \<longrightarrow> identAt (run w evs s) key = Some x))"
proof (cases "identAt s key")
  case None
  then have "\<not> registered s key" by (simp add: registered_def identAt_def)
  then show ?thesis using run_unsettled [OF None assms] by simp
next
  case (Some x)
  have reg: "registered s key" using Some by (auto simp: registered_def identAt_def)
  have st: "settled s key x" using Some assms(1) by (simp add: settled_def)
  from run_settled [OF st assms(2)] obtain n where
    ic: "initsFor (run w evs s) key = initsFor s key"
    and ob: "observedFor (run w evs s) key = observedFor s key @ replicate n x"
    and pos: "0 < n \<longrightarrow> identAt (run w evs s) key = Some x"
    and id: "identAt s key = Some x \<longrightarrow> identAt (run w evs s) key = Some x"
    by blast
  have C: "\<exists>x n. observedFor (run w evs s) key = observedFor s key @ replicate n x
                 \<and> (0 < n \<longrightarrow> identAt (run w evs s) key = Some x)"
    using ob pos by blast
  show ?thesis using ic id Some C by simp
qed

theorem getDatabase_once_witness:
  "pendingFor (freshService :: memStore service) (''demo1-service.init.js'', ''./demo1.db'') = []
   \<and> serialFor memWorld (''demo1-service.init.js'', ''./demo1.db'') oneByOne freshService
   \<and> length (initsFor (run memWorld oneByOne freshService) (''demo1-service.init.js'', ''./demo1.db'')) \<le> 1
   \<and> observedFor (run memWorld oneByOne freshService) (''demo1-service.init.js'', ''./demo1.db'')
       = [Some 0, Some 0]
   \<and> identAt (run memWorld oneByOne freshService) (''demo1-service.init.js'', ''./demo1.db'')
       = Some (Some 0)"
proof -
  define key where "key = (''demo1-service.init.js'', ''./demo1.db'')"
  have h1: "pendingFor (freshService :: memStore service) key = []"
    by (simp add: pendingFor_def freshService_def)
  have h2: "serialFor memWorld key oneByOne freshService"
    unfolding key_def by code_simp
  have i0: "initsFor (freshService :: memStore service) key = []"
    by (simp add: initsFor_def freshService_def)
  have v1: "observedFor (run memWorld oneByOne freshService) key = [Some 0, Some 0]"
    unfolding key_def by code_simp
  have v2: "identAt (run memWorld oneByOne freshService) key = Some (Some 0)"
    unfolding key_def by code_simp
  have "length (initsFor (run memWorld oneByOne freshService) key) \<le> 1"
    using getDatabase_once [OF h1 h2] by (simp add: i0)
  then show ?thesis
    using h1 h2 v1 v2 unfolding key_def by simp
qed

text \<open>
  C1. The claim covers every sequence of requests for one key. getDatabase only knows
  the entries that are registered, not the constructions in flight: when the host issues
  the example's request twice before the initializer has called back, \<open>init\<close> is called
  (and returns) twice, and the two callbacks receive two different stores.
\<close>

theorem getDatabase_race_counterexample:
  "length (initsFor (run memWorld race freshService) (''demo1-service.init.js'', ''./demo1.db'')) = 2
   \<and> observedFor (run memWorld race freshService) (''demo1-service.init.js'', ''./demo1.db'')
       = [Some 0, Some 1]"
  by code_simp

section \<open>A callback that throws, on each way through getDatabase\<close>

text \<open>getDatabase calls the callback it is given at once for a registered pair (line
  80), inside \<open>init\<close> when the initializer calls back before it returns, and after
  the export has returned when the initializer calls back later (line 107); when
  \<open>require\<close> or \<open>init\<close> throws it does not call it. The lemmas follow a
  callback that throws and leaves the store as it was through each.\<close>

lemma construct_fst:
  "constructed s' = constructed s \<Longrightarrow> fst (construct d s') = fst (construct d s)"
  by (simp add: construct_def split: option.splits)



lemma getDatabase_init_async:
  assumes "lookupEntry (databaseRegistry s) (serviceOf req) (fileOf req) = None"
    and "requireInit w (serviceOf req) = Some init"
    and "init (fileOf req) (length (initCalls s)) = InitAsync d"
  shows "fst (getDatabase w req k s) = None"
    and "initCalls (snd (getDatabase w req k s)) = initCalls s @ [(serviceOf req, fileOf req, True)]"
    and "pendingInits (snd (getDatabase w req k s)) = pendingInits s @ [(req, k, fst (construct d s))]"
    and "lookupEntry (databaseRegistry (snd (getDatabase w req k s))) (serviceOf req) (fileOf req) = None"
    and "callbacks (snd (getDatabase w req k s)) = callbacks s"
    and "serviceStats (snd (getDatabase w req k s)) = serviceStats s"
proof -
  let ?a = "serviceOf req" and ?b = "fileOf req"
  define s1 where "s1 = (case map_of (databaseRegistry s) ?a of
                  None \<Rightarrow> s\<lparr>databaseRegistry := databaseRegistry s @ [(?a, [])]\<rparr>
                | Some files \<Rightarrow> s)"
  have l1: "lookupEntry (databaseRegistry s1) ?a ?b = None"
    using assms(1) by (simp add: s1_def lookupEntry_append_service split: option.splits)
  have f1: "initCalls s1 = initCalls s" "pendingInits s1 = pendingInits s"
    "callbacks s1 = callbacks s" "serviceStats s1 = serviceStats s" "constructed s1 = constructed s"
    by (simp_all add: s1_def split: option.splits)
  define s2 where "s2 = s1\<lparr>initCalls := initCalls s1 @ [(?a, ?b, True)]\<rparr>"
  obtain h s3 where cs: "construct d s2 = (h, s3)" by (cases "construct d s2")
  have h: "h = fst (construct d s)"
    using construct_fst [of s2 s d] cs f1 by (simp add: s2_def)
  have f3: "initCalls s3 = initCalls s @ [(?a, ?b, True)]" "pendingInits s3 = pendingInits s"
    "callbacks s3 = callbacks s" "serviceStats s3 = serviceStats s"
    "databaseRegistry s3 = databaseRegistry s1"
    using construct_frame [of d s2] cs f1 by (simp_all add: s2_def)
  have g: "getDatabase w req k s = (None, s3\<lparr>pendingInits := pendingInits s3 @ [(req, k, h)]\<rparr>)"
    using l1 assms(2,3) f1 cs by (simp add: getDatabase_def s1_def [symmetric] s2_def Let_def)
  show "fst (getDatabase w req k s) = None"
    and "initCalls (snd (getDatabase w req k s)) = initCalls s @ [(serviceOf req, fileOf req, True)]"
    and "pendingInits (snd (getDatabase w req k s)) = pendingInits s @ [(req, k, fst (construct d s))]"
    and "lookupEntry (databaseRegistry (snd (getDatabase w req k s))) (serviceOf req) (fileOf req) = None"
    and "callbacks (snd (getDatabase w req k s)) = callbacks s"
    and "serviceStats (snd (getDatabase w req k s)) = serviceStats s"
    using l1 f3 h by (simp_all add: g)
qed

lemma initCallback_throws:
  assumes "map_of (databaseRegistry s) (serviceOf req) \<noteq> None"
    and "runCont w k (map_option content h) = (Inl er, map_option content h)"
  shows "initCallback w req k h s =
           (Some er,
            s\<lparr>databaseRegistry :=
                 setEntry (serviceOf req) (fileOf req) \<lparr>dbInstance = h, stats = zeroStats\<rparr>
                   (databaseRegistry s),
              observed := observed s @ [(req, map_option ident h)]\<rparr>)"
proof -
  let ?e = "\<lparr>dbInstance = h, stats = zeroStats\<rparr>"
  let ?s1 = "s\<lparr>databaseRegistry := setEntry (serviceOf req) (fileOf req) ?e (databaseRegistry s)\<rparr>"
  from assms(1) obtain files where fs: "map_of (databaseRegistry s) (serviceOf req) = Some files"
    by auto
  have l: "lookupEntry (databaseRegistry ?s1) (serviceOf req) (fileOf req) = Some ?e"
    using assms(1) by (simp add: lookupEntry_setEntry)
  have b: "runCont w k (map_option content (dbInstance ?e)) = (Inl er, map_option content (dbInstance ?e))"
    using assms(2) by simp
  show ?thesis
    using callback_at_entry [OF l b] fs by (simp add: initCallback_def)
qed

lemma getDatabase_init_sync:
  assumes "lookupEntry (databaseRegistry s) (serviceOf req) (fileOf req) = None"
    and "requireInit w (serviceOf req) = Some init"
    and "init (fileOf req) (length (initCalls s)) = InitSync d"
    and "runCont w k (map_option content (fst (construct d s))) =
           (Inl er, map_option content (fst (construct d s)))"
  shows "fst (getDatabase w req k s) = Some er"
    and "initCalls (snd (getDatabase w req k s)) = initCalls s @ [(serviceOf req, fileOf req, True)]"
    and "pendingInits (snd (getDatabase w req k s)) = pendingInits s"
    and "lookupEntry (databaseRegistry (snd (getDatabase w req k s))) (serviceOf req) (fileOf req)
           = Some \<lparr>dbInstance = fst (construct d s), stats = zeroStats\<rparr>"
    and "callbacks (snd (getDatabase w req k s)) = callbacks s"
    and "serviceStats (snd (getDatabase w req k s)) = serviceStats s"
proof -
  let ?a = "serviceOf req" and ?b = "fileOf req"
  define s1 where "s1 = (case map_of (databaseRegistry s) ?a of
                  None \<Rightarrow> s\<lparr>databaseRegistry := databaseRegistry s @ [(?a, [])]\<rparr>
                | Some files \<Rightarrow> s)"
  have l1: "lookupEntry (databaseRegistry s1) ?a ?b = None"
    using assms(1) by (simp add: s1_def lookupEntry_append_service split: option.splits)
  have f1: "initCalls s1 = initCalls s" "pendingInits s1 = pendingInits s"
    "callbacks s1 = callbacks s" "serviceStats s1 = serviceStats s" "constructed s1 = constructed s"
    by (simp_all add: s1_def split: option.splits)
  have m1: "map_of (databaseRegistry s1) ?a \<noteq> None"
    by (auto simp: s1_def map_add_def split: option.splits)
  define s2 where "s2 = s1\<lparr>initCalls := initCalls s1 @ [(?a, ?b, True)]\<rparr>"
  obtain h s3 where cs: "construct d s2 = (h, s3)" by (cases "construct d s2")
  have h: "h = fst (construct d s)"
    using construct_fst [of s2 s d] cs f1 by (simp add: s2_def)
  have f3: "initCalls s3 = initCalls s @ [(?a, ?b, True)]" "pendingInits s3 = pendingInits s"
    "callbacks s3 = callbacks s" "serviceStats s3 = serviceStats s"
    "databaseRegistry s3 = databaseRegistry s1"
    using construct_frame [of d s2] cs f1 by (simp_all add: s2_def)
  have m3: "map_of (databaseRegistry s3) ?a \<noteq> None" using m1 f3 by simp
  have b: "runCont w k (map_option content h) = (Inl er, map_option content h)"
    using assms(4) h by simp
  have g: "getDatabase w req k s = initCallback w req k h s3"
    using l1 assms(2,3) f1 cs by (simp add: getDatabase_def s1_def [symmetric] s2_def Let_def)
  have res: "getDatabase w req k s =
           (Some er,
            s3\<lparr>databaseRegistry :=
                 setEntry (serviceOf req) (fileOf req)
                   \<lparr>dbInstance = fst (construct d s), stats = zeroStats\<rparr> (databaseRegistry s3),
              observed := observed s3 @ [(req, map_option ident (fst (construct d s)))]\<rparr>)"
    using initCallback_throws [OF m3 b] by (simp add: g h)
  show "fst (getDatabase w req k s) = Some er"
    and "initCalls (snd (getDatabase w req k s)) = initCalls s @ [(serviceOf req, fileOf req, True)]"
    and "pendingInits (snd (getDatabase w req k s)) = pendingInits s"
    and "lookupEntry (databaseRegistry (snd (getDatabase w req k s))) (serviceOf req) (fileOf req)
           = Some \<lparr>dbInstance = fst (construct d s), stats = zeroStats\<rparr>"
    and "callbacks (snd (getDatabase w req k s)) = callbacks s"
    and "serviceStats (snd (getDatabase w req k s)) = serviceStats s"
    using f3 m3 by (simp_all add: res lookupEntry_setEntry)
qed

lemma initComplete_throws:
  assumes "i < length (pendingInits s)" and "pendingInits s ! i = (req, k, h)"
    and "map_of (databaseRegistry s) (serviceOf req) \<noteq> None"
    and "runCont w k (map_option content h) = (Inl er, map_option content h)"
  shows "fst (initComplete w i s) = Some er"
    and "lookupEntry (databaseRegistry (snd (initComplete w i s))) (serviceOf req) (fileOf req)
           = Some \<lparr>dbInstance = h, stats = zeroStats\<rparr>"
    and "serviceStats (snd (initComplete w i s)) = serviceStats s"
    and "callbacks (snd (initComplete w i s)) = callbacks s"
    and "pendingInits (snd (initComplete w i s)) = take i (pendingInits s) @ drop (Suc i) (pendingInits s)"
proof -
  let ?s1 = "s\<lparr>pendingInits := take i (pendingInits s) @ drop (Suc i) (pendingInits s)\<rparr>"
  have m: "map_of (databaseRegistry ?s1) (serviceOf req) \<noteq> None" using assms(3) by simp
  have g: "initComplete w i s = initCallback w req k h ?s1"
    using assms(1,2) by (simp add: initComplete_def)
  note ic = initCallback_throws [OF m assms(4)]
  show "fst (initComplete w i s) = Some er"
    and "lookupEntry (databaseRegistry (snd (initComplete w i s))) (serviceOf req) (fileOf req)
           = Some \<lparr>dbInstance = h, stats = zeroStats\<rparr>"
    and "serviceStats (snd (initComplete w i s)) = serviceStats s"
    and "callbacks (snd (initComplete w i s)) = callbacks s"
    and "pendingInits (snd (initComplete w i s)) = take i (pendingInits s) @ drop (Suc i) (pendingInits s)"
    using assms(3) by (simp_all add: g ic lookupEntry_setEntry)
qed


lemma initResult_Some:
  assumes "initResult w req s = Some r"
  obtains init where "requireInit w (serviceOf req) = Some init"
    and "init (fileOf req) (length (initCalls s)) = r"
  using assms by (auto simp: initResult_def)

lemma startTiming_fields:
  "callbacks (startTiming w s) = callbacks s"
  "serviceStats (startTiming w s) = serviceStats s"
  "constructed (startTiming w s) = constructed s"
  by (simp_all add: startTiming_def)

lemma invoke_late:
  "prepare w req = Inr k \<Longrightarrow> invoke w req s = getDatabase w req k (startTiming w s)"
  by (simp add: invoke_def)

lemma invoke_registered_throws:
  assumes "prepare w req = Inr k"
    and "lookupEntry (databaseRegistry s) (serviceOf req) (fileOf req) = Some e"
    and "runCont w k (map_option content (dbInstance e)) = (Inl er, map_option content (dbInstance e))"
  shows "invoke w req s =
           (Some er,
            s\<lparr>started := hrtimeMS w (hrReads s), hrReads := hrReads s + 1,
              observed := observed s @ [(req, map_option ident (dbInstance e))]\<rparr>)"
proof -
  have l: "lookupEntry (databaseRegistry (startTiming w s)) (serviceOf req) (fileOf req) = Some e"
    using assms(2) by (simp add: startTiming_frame)
  show ?thesis
    using callback_at_entry [OF l assms(3)]
    by (simp add: invoke_registered [OF assms(2,1)] startTiming_def)
qed



lemma invoke_init_sync:
  assumes "prepare w req = Inr k"
    and "lookupEntry (databaseRegistry s) (serviceOf req) (fileOf req) = None"
    and "initResult w req s = Some (InitSync d)"
    and "runCont w k (map_option content (fst (construct d s))) =
           (Inl er, map_option content (fst (construct d s)))"
  shows "fst (invoke w req s) = Some er
       \<and> initCalls (snd (invoke w req s)) = initCalls s @ [(serviceOf req, fileOf req, True)]
       \<and> pendingInits (snd (invoke w req s)) = pendingInits s
       \<and> lookupEntry (databaseRegistry (snd (invoke w req s))) (serviceOf req) (fileOf req)
           = Some \<lparr>dbInstance = fst (construct d s), stats = zeroStats\<rparr>
       \<and> callbacks (snd (invoke w req s)) = callbacks s
       \<and> serviceStats (snd (invoke w req s)) = serviceStats s"
proof -
  have l: "lookupEntry (databaseRegistry (startTiming w s)) (serviceOf req) (fileOf req) = None"
    using assms(2) by (simp add: startTiming_frame)
  from assms(3) obtain init where i: "requireInit w (serviceOf req) = Some init"
    and r: "init (fileOf req) (length (initCalls s)) = InitSync d"
    by (rule initResult_Some)
  have r': "init (fileOf req) (length (initCalls (startTiming w s))) = InitSync d"
    using r by (simp add: startTiming_frame)
  have c: "fst (construct d (startTiming w s)) = fst (construct d s)"
    by (rule construct_fst) (simp add: startTiming_fields)
  have b: "runCont w k (map_option content (fst (construct d (startTiming w s)))) =
           (Inl er, map_option content (fst (construct d (startTiming w s))))"
    using assms(4) by (simp add: c)
  show ?thesis
    using getDatabase_init_sync [OF l i r' b]
    by (simp add: invoke_late [OF assms(1)] startTiming_frame startTiming_fields c)
qed

lemma invoke_init_async:
  assumes "prepare w req = Inr k"
    and "lookupEntry (databaseRegistry s) (serviceOf req) (fileOf req) = None"
    and "initResult w req s = Some (InitAsync d)"
  shows "fst (invoke w req s) = None
       \<and> initCalls (snd (invoke w req s)) = initCalls s @ [(serviceOf req, fileOf req, True)]
       \<and> pendingInits (snd (invoke w req s)) = pendingInits s @ [(req, k, fst (construct d s))]
       \<and> lookupEntry (databaseRegistry (snd (invoke w req s))) (serviceOf req) (fileOf req) = None
       \<and> callbacks (snd (invoke w req s)) = callbacks s
       \<and> serviceStats (snd (invoke w req s)) = serviceStats s"
proof -
  have l: "lookupEntry (databaseRegistry (startTiming w s)) (serviceOf req) (fileOf req) = None"
    using assms(2) by (simp add: startTiming_frame)
  from assms(3) obtain init where i: "requireInit w (serviceOf req) = Some init"
    and r: "init (fileOf req) (length (initCalls s)) = InitAsync d"
    by (rule initResult_Some)
  have r': "init (fileOf req) (length (initCalls (startTiming w s))) = InitAsync d"
    using r by (simp add: startTiming_frame)
  have c: "fst (construct d (startTiming w s)) = fst (construct d s)"
    by (rule construct_fst) (simp add: startTiming_fields)
  show ?thesis
    using getDatabase_init_async [OF l i r', of k]
    by (simp add: invoke_late [OF assms(1)] startTiming_frame startTiming_fields c)
qed

lemma initComplete_throws_all:
  assumes "i < length (pendingInits s)" and "pendingInits s ! i = (req, k, h)"
    and "map_of (databaseRegistry s) (serviceOf req) \<noteq> None"
    and "runCont w k (map_option content h) = (Inl er, map_option content h)"
  shows "fst (initComplete w i s) = Some er
       \<and> lookupEntry (databaseRegistry (snd (initComplete w i s))) (serviceOf req) (fileOf req)
           = Some \<lparr>dbInstance = h, stats = zeroStats\<rparr>
       \<and> serviceStats (snd (initComplete w i s)) = serviceStats s
       \<and> callbacks (snd (initComplete w i s)) = callbacks s
       \<and> pendingInits (snd (initComplete w i s)) = take i (pendingInits s) @ drop (Suc i) (pendingInits s)"
  using initComplete_throws [OF assms] by simp

section \<open>update without the record\<close>

text \<open>
  C4, as the code has it. An update whose delta names an identity that no record of
  the collection has: \<open>get\<close> returns null and \<open>Object.assign(null, obj)\<close>
  (line 191) throws a TypeError before \<open>update\<close> is called, so the callback leaves
  the store as it found it. The code has no error of its own for the case: a collection
  that is not there gives the same TypeError (line 188). On a registered store the
  export throws it to its caller, and the module's state is as before but for the clock
  and the record of the callback's run. On first use with an initializer that calls
  back before it returns, the store is registered with zeroed statistics and the export
  throws it to its caller. On first use with an initializer that calls back later, the
  export returns without throwing, the store not registered yet; when the initializer
  calls back, the store is registered and the TypeError is thrown there. On none of
  these ways is a request counted or the host's callback called.
\<close>

theorem update_missing_record:
  assumes "updatePayload w obj = Inr delta"
    and "hasCollection w db collection"
    and "collGet w db collection (getProp delta ''$loki'') = Inr None"
  shows "processUpdate w collection obj (Some db) = (Inl TypeError, Some db)
       \<and> (\<not> hasCollection w db2 collection2
            \<longrightarrow> processUpdate w collection2 obj (Some db2) = (Inl TypeError, Some db2))
       \<and> (lookupEntry (databaseRegistry s) serviceName filename = Some e
            \<and> dbInstance e = Some \<lparr>ident = j, content = db\<rparr>
            \<longrightarrow> invoke w (Update serviceName filename collection obj) s =
                  (Some TypeError,
                   s\<lparr>started := hrtimeMS w (hrReads s), hrReads := hrReads s + 1,
                     observed := observed s @
                       [(Update serviceName filename collection obj, Some j)]\<rparr>))
       \<and> (lookupEntry (databaseRegistry s) serviceName filename = None
            \<and> initResult w (Update serviceName filename collection obj) s = Some (InitSync (Some db))
            \<longrightarrow> fst (invoke w (Update serviceName filename collection obj) s) = Some TypeError
                \<and> lookupEntry
                     (databaseRegistry (snd (invoke w (Update serviceName filename collection obj) s)))
                     serviceName filename
                   = Some \<lparr>dbInstance = Some \<lparr>ident = constructed s, content = db\<rparr>,
                           stats = zeroStats\<rparr>
                \<and> serviceStats (snd (invoke w (Update serviceName filename collection obj) s))
                   = serviceStats s
                \<and> callbacks (snd (invoke w (Update serviceName filename collection obj) s))
                   = callbacks s)
       \<and> (lookupEntry (databaseRegistry s) serviceName filename = None
            \<and> initResult w (Update serviceName filename collection obj) s = Some (InitAsync (Some db))
            \<longrightarrow> fst (invoke w (Update serviceName filename collection obj) s) = None
                \<and> pendingInits (snd (invoke w (Update serviceName filename collection obj) s))
                   = pendingInits s @
                       [(Update serviceName filename collection obj, UpdateK collection obj,
                         Some \<lparr>ident = constructed s, content = db\<rparr>)]
                \<and> lookupEntry
                     (databaseRegistry (snd (invoke w (Update serviceName filename collection obj) s)))
                     serviceName filename = None
                \<and> serviceStats (snd (invoke w (Update serviceName filename collection obj) s))
                   = serviceStats s
                \<and> callbacks (snd (invoke w (Update serviceName filename collection obj) s))
                   = callbacks s)
       \<and> (i < length (pendingInits s)
            \<and> pendingInits s ! i =
                (Update serviceName filename collection obj, UpdateK collection obj,
                 Some \<lparr>ident = j, content = db\<rparr>)
            \<and> map_of (databaseRegistry s) serviceName \<noteq> None
            \<longrightarrow> fst (initComplete w i s) = Some TypeError
                \<and> lookupEntry (databaseRegistry (snd (initComplete w i s))) serviceName filename
                   = Some \<lparr>dbInstance = Some \<lparr>ident = j, content = db\<rparr>, stats = zeroStats\<rparr>
                \<and> serviceStats (snd (initComplete w i s)) = serviceStats s
                \<and> callbacks (snd (initComplete w i s)) = callbacks s)"
proof -
  let ?req = "Update serviceName filename collection obj"
  let ?k = "UpdateK collection obj"
  have p: "prepare w ?req = Inr ?k" by simp
  have body: "processUpdate w collection obj (Some db) = (Inl TypeError, Some db)"
    by (rule processUpdate_missing [OF assms])
  have bad: "\<And>n. runCont w ?k (map_option content (Some \<lparr>ident = n, content = db\<rparr>))
               = (Inl TypeError, map_option content (Some \<lparr>ident = n, content = db\<rparr>))"
    using body by simp
  have cons: "fst (construct (Some db) s) = Some \<lparr>ident = constructed s, content = db\<rparr>"
    by (simp add: construct_def)
  have nocoll: "\<not> hasCollection w db2 collection2
            \<longrightarrow> processUpdate w collection2 obj (Some db2) = (Inl TypeError, Some db2)"
    using assms(1) by (simp add: processUpdate_def withCollection_def)
  have reg: "lookupEntry (databaseRegistry s) serviceName filename = Some e
            \<and> dbInstance e = Some \<lparr>ident = j, content = db\<rparr>
            \<longrightarrow> invoke w ?req s =
                  (Some TypeError,
                   s\<lparr>started := hrtimeMS w (hrReads s), hrReads := hrReads s + 1,
                     observed := observed s @ [(?req, Some j)]\<rparr>)"
  proof (intro impI, elim conjE)
    assume l: "lookupEntry (databaseRegistry s) serviceName filename = Some e"
      and d: "dbInstance e = Some \<lparr>ident = j, content = db\<rparr>"
    have l': "lookupEntry (databaseRegistry s) (serviceOf ?req) (fileOf ?req) = Some e"
      using l by simp
    have b: "runCont w ?k (map_option content (dbInstance e))
               = (Inl TypeError, map_option content (dbInstance e))"
      using bad [of j] d by simp
    show "invoke w ?req s =
                  (Some TypeError,
                   s\<lparr>started := hrtimeMS w (hrReads s), hrReads := hrReads s + 1,
                     observed := observed s @ [(?req, Some j)]\<rparr>)"
      using invoke_registered_throws [OF p l' b] d by simp
  qed
  have sync: "lookupEntry (databaseRegistry s) serviceName filename = None
            \<and> initResult w ?req s = Some (InitSync (Some db))
            \<longrightarrow> fst (invoke w ?req s) = Some TypeError
                \<and> lookupEntry (databaseRegistry (snd (invoke w ?req s))) serviceName filename
                   = Some \<lparr>dbInstance = Some \<lparr>ident = constructed s, content = db\<rparr>,
                           stats = zeroStats\<rparr>
                \<and> serviceStats (snd (invoke w ?req s)) = serviceStats s
                \<and> callbacks (snd (invoke w ?req s)) = callbacks s"
  proof (intro impI, elim conjE)
    assume l: "lookupEntry (databaseRegistry s) serviceName filename = None"
      and r: "initResult w ?req s = Some (InitSync (Some db))"
    have l': "lookupEntry (databaseRegistry s) (serviceOf ?req) (fileOf ?req) = None"
      using l by simp
    have b: "runCont w ?k (map_option content (fst (construct (Some db) s)))
               = (Inl TypeError, map_option content (fst (construct (Some db) s)))"
      using bad [of "constructed s"] by (simp add: cons)
    show "fst (invoke w ?req s) = Some TypeError
                \<and> lookupEntry (databaseRegistry (snd (invoke w ?req s))) serviceName filename
                   = Some \<lparr>dbInstance = Some \<lparr>ident = constructed s, content = db\<rparr>,
                           stats = zeroStats\<rparr>
                \<and> serviceStats (snd (invoke w ?req s)) = serviceStats s
                \<and> callbacks (snd (invoke w ?req s)) = callbacks s"
      using invoke_init_sync [OF p l' r b] by (simp add: cons)
  qed
  have async: "lookupEntry (databaseRegistry s) serviceName filename = None
            \<and> initResult w ?req s = Some (InitAsync (Some db))
            \<longrightarrow> fst (invoke w ?req s) = None
                \<and> pendingInits (snd (invoke w ?req s))
                   = pendingInits s @ [(?req, ?k, Some \<lparr>ident = constructed s, content = db\<rparr>)]
                \<and> lookupEntry (databaseRegistry (snd (invoke w ?req s))) serviceName filename = None
                \<and> serviceStats (snd (invoke w ?req s)) = serviceStats s
                \<and> callbacks (snd (invoke w ?req s)) = callbacks s"
  proof (intro impI, elim conjE)
    assume l: "lookupEntry (databaseRegistry s) serviceName filename = None"
      and r: "initResult w ?req s = Some (InitAsync (Some db))"
    have l': "lookupEntry (databaseRegistry s) (serviceOf ?req) (fileOf ?req) = None"
      using l by simp
    show "fst (invoke w ?req s) = None
                \<and> pendingInits (snd (invoke w ?req s))
                   = pendingInits s @ [(?req, ?k, Some \<lparr>ident = constructed s, content = db\<rparr>)]
                \<and> lookupEntry (databaseRegistry (snd (invoke w ?req s))) serviceName filename = None
                \<and> serviceStats (snd (invoke w ?req s)) = serviceStats s
                \<and> callbacks (snd (invoke w ?req s)) = callbacks s"
      using invoke_init_async [OF p l' r] by (simp add: cons)
  qed
  have compl: "i < length (pendingInits s)
            \<and> pendingInits s ! i = (?req, ?k, Some \<lparr>ident = j, content = db\<rparr>)
            \<and> map_of (databaseRegistry s) serviceName \<noteq> None
            \<longrightarrow> fst (initComplete w i s) = Some TypeError
                \<and> lookupEntry (databaseRegistry (snd (initComplete w i s))) serviceName filename
                   = Some \<lparr>dbInstance = Some \<lparr>ident = j, content = db\<rparr>, stats = zeroStats\<rparr>
                \<and> serviceStats (snd (initComplete w i s)) = serviceStats s
                \<and> callbacks (snd (initComplete w i s)) = callbacks s"
  proof (intro impI, elim conjE)
    assume i: "i < length (pendingInits s)"
      and pe: "pendingInits s ! i = (?req, ?k, Some \<lparr>ident = j, content = db\<rparr>)"
      and m: "map_of (databaseRegistry s) serviceName \<noteq> None"
    have m': "map_of (databaseRegistry s) (serviceOf ?req) \<noteq> None" using m by simp
    show "fst (initComplete w i s) = Some TypeError
                \<and> lookupEntry (databaseRegistry (snd (initComplete w i s))) serviceName filename
                   = Some \<lparr>dbInstance = Some \<lparr>ident = j, content = db\<rparr>, stats = zeroStats\<rparr>
                \<and> serviceStats (snd (initComplete w i s)) = serviceStats s
                \<and> callbacks (snd (initComplete w i s)) = callbacks s"
      using initComplete_throws_all [OF i pe m' bad [of j]] by simp
  qed
  from body nocoll reg sync async compl show ?thesis by (intro conjI)
qed

text \<open>On the store of the example: an update for identity 9, and for a collection
  that is not there; on the registered store, on first use through the initializer that
  calls back at once, and on first use through the one that calls back later, with its
  completion.\<close>

theorem update_missing_record_witness:
  "updatePayload memWorld strayDelta = Inr strayDelta
   \<and> hasCollection memWorld seed ''users''
   \<and> collGet memWorld seed ''users'' (getProp strayDelta ''$loki'') = Inr None
   \<and> processUpdate memWorld ''users'' strayDelta (Some seed) = (Inl TypeError, Some seed)
   \<and> \<not> hasCollection memWorld seed ''nowhere''
   \<and> processUpdate memWorld ''nowhere'' strayDelta (Some seed) = (Inl TypeError, Some seed)
   \<and> lookupEntry (databaseRegistry servingSeed) ''sync.init.js'' ''./demo1.db''
       = Some \<lparr>dbInstance = Some \<lparr>ident = 0, content = seed\<rparr>, stats = zeroStats\<rparr>
   \<and> fst (invoke memWorld (strayUpdate ''sync.init.js'') servingSeed) = Some TypeError
   \<and> databaseRegistry (snd (invoke memWorld (strayUpdate ''sync.init.js'') servingSeed))
       = databaseRegistry servingSeed
   \<and> serviceStats (snd (invoke memWorld (strayUpdate ''sync.init.js'') servingSeed))
       = serviceStats servingSeed
   \<and> callbacks (snd (invoke memWorld (strayUpdate ''sync.init.js'') servingSeed))
       = callbacks servingSeed
   \<and> lookupEntry (databaseRegistry (freshService :: memStore service)) ''sync.init.js'' ''./demo1.db''
       = None
   \<and> initResult memWorld (strayUpdate ''sync.init.js'') freshService = Some (InitSync (Some seed))
   \<and> fst (invoke memWorld (strayUpdate ''sync.init.js'') freshService) = Some TypeError
   \<and> lookupEntry (databaseRegistry (snd (invoke memWorld (strayUpdate ''sync.init.js'') freshService)))
        ''sync.init.js'' ''./demo1.db''
       = Some \<lparr>dbInstance = Some \<lparr>ident = 0, content = seed\<rparr>, stats = zeroStats\<rparr>
   \<and> callbacks (snd (invoke memWorld (strayUpdate ''sync.init.js'') freshService)) = []
   \<and> lookupEntry (databaseRegistry (freshService :: memStore service))
        ''demo1-service.init.js'' ''./demo1.db'' = None
   \<and> initResult memWorld (strayUpdate ''demo1-service.init.js'') freshService
       = Some (InitAsync (Some seed))
   \<and> fst (invoke memWorld (strayUpdate ''demo1-service.init.js'') freshService) = None
   \<and> pendingInits (snd (invoke memWorld (strayUpdate ''demo1-service.init.js'') freshService))
       = [(strayUpdate ''demo1-service.init.js'', UpdateK ''users'' strayDelta,
           Some \<lparr>ident = 0, content = seed\<rparr>)]
   \<and> callbacks (snd (invoke memWorld (strayUpdate ''demo1-service.init.js'') freshService)) = []
   \<and> map_of (databaseRegistry (snd (invoke memWorld (strayUpdate ''demo1-service.init.js'') freshService)))
        ''demo1-service.init.js'' \<noteq> None
   \<and> fst (initComplete memWorld 0
            (snd (invoke memWorld (strayUpdate ''demo1-service.init.js'') freshService)))
       = Some TypeError
   \<and> lookupEntry
        (databaseRegistry (snd (initComplete memWorld 0
            (snd (invoke memWorld (strayUpdate ''demo1-service.init.js'') freshService)))))
        ''demo1-service.init.js'' ''./demo1.db''
       = Some \<lparr>dbInstance = Some \<lparr>ident = 0, content = seed\<rparr>, stats = zeroStats\<rparr>
   \<and> callbacks (snd (initComplete memWorld 0
            (snd (invoke memWorld (strayUpdate ''demo1-service.init.js'') freshService)))) = []"
proof -
  define E :: "memStore registryEntry"
    where "E = \<lparr>dbInstance = Some \<lparr>ident = 0, content = seed\<rparr>, stats = zeroStats\<rparr>"
  define fresh :: "memStore service" where "fresh = freshService"
  define sA where "sA = snd (invoke memWorld (strayUpdate ''demo1-service.init.js'') fresh)"
  have h1: "updatePayload memWorld strayDelta = Inr strayDelta"
    by (simp add: updatePayload_def parseIfString_def hasOwnProperty_def strayDelta_def)
  have h2: "hasCollection memWorld seed ''users''"
    by (simp add: memWorld_def seed_def)
  have h3: "collGet memWorld seed ''users'' (getProp strayDelta ''$loki'') = Inr None"
    by (simp add: getProp_def strayDelta_def memWorld_def memGet_def memDocs_def seed_def)
  have n: "\<not> hasCollection memWorld seed ''nowhere''"
    by (simp add: memWorld_def seed_def)
  have f: "constructed fresh = 0" "pendingInits fresh = []" "callbacks fresh = []"
    "lookupEntry (databaseRegistry fresh) ''sync.init.js'' ''./demo1.db'' = None"
    "lookupEntry (databaseRegistry fresh) ''demo1-service.init.js'' ''./demo1.db'' = None"
    by (simp_all add: fresh_def freshService_def lookupEntry_def)
  have l: "lookupEntry (databaseRegistry servingSeed) ''sync.init.js'' ''./demo1.db'' = Some E"
    by (simp add: servingSeed_def lookupEntry_def E_def)
  have d: "dbInstance E = Some \<lparr>ident = 0, content = seed\<rparr>"
    by (simp add: E_def)
  have rs: "initResult memWorld (Update ''sync.init.js'' ''./demo1.db'' ''users'' strayDelta) fresh
              = Some (InitSync (Some seed))"
    by (simp add: initResult_def memWorld_def)
  have ra: "initResult memWorld (Update ''demo1-service.init.js'' ''./demo1.db'' ''users'' strayDelta) fresh
              = Some (InitAsync (Some seed))"
    by (simp add: initResult_def memWorld_def)
  note T = update_missing_record [OF h1 h2 h3]
  note c1 = T [THEN conjunct1]
  note c2 = T [THEN conjunct2, THEN conjunct1, THEN mp]
  note c3 = T [THEN conjunct2, THEN conjunct2, THEN conjunct1, THEN mp, OF conjI]
  note c4 = T [THEN conjunct2, THEN conjunct2, THEN conjunct2, THEN conjunct1, THEN mp, OF conjI]
  note c5 = T [THEN conjunct2, THEN conjunct2, THEN conjunct2, THEN conjunct2, THEN conjunct1,
               THEN mp, OF conjI]
  note c6 = T [THEN conjunct2, THEN conjunct2, THEN conjunct2, THEN conjunct2, THEN conjunct2,
               THEN mp, OF conjI [OF _ conjI]]
  have p1: "processUpdate memWorld ''users'' strayDelta (Some seed) = (Inl TypeError, Some seed)"
    by (rule c1)
  have p2: "processUpdate memWorld ''nowhere'' strayDelta (Some seed) = (Inl TypeError, Some seed)"
    by (rule c2 [OF n])
  have p3: "invoke memWorld (strayUpdate ''sync.init.js'') servingSeed =
              (Some TypeError,
               servingSeed\<lparr>started := hrtimeMS memWorld (hrReads servingSeed),
                 hrReads := hrReads servingSeed + 1,
                 observed := observed servingSeed @ [(strayUpdate ''sync.init.js'', Some 0)]\<rparr>)"
    unfolding strayUpdate_def by (rule c3 [OF l d])
  have p4: "fst (invoke memWorld (strayUpdate ''sync.init.js'') fresh) = Some TypeError
          \<and> lookupEntry (databaseRegistry (snd (invoke memWorld (strayUpdate ''sync.init.js'') fresh)))
               ''sync.init.js'' ''./demo1.db'' = Some E
          \<and> callbacks (snd (invoke memWorld (strayUpdate ''sync.init.js'') fresh)) = []"
    using c4 [OF f(4) rs] f(1,3)
    unfolding strayUpdate_def E_def by simp
  have p5: "fst (invoke memWorld (strayUpdate ''demo1-service.init.js'') fresh) = None
          \<and> pendingInits sA
              = [(strayUpdate ''demo1-service.init.js'', UpdateK ''users'' strayDelta,
                  Some \<lparr>ident = 0, content = seed\<rparr>)]
          \<and> callbacks sA = []"
    using c5 [OF f(5) ra] f(1,2,3)
    unfolding strayUpdate_def sA_def by simp
  have m: "map_of (databaseRegistry sA) ''demo1-service.init.js'' \<noteq> None"
    unfolding sA_def fresh_def by code_simp
  have i0: "0 < length (pendingInits sA)"
    using p5 by simp
  have n0: "pendingInits sA ! 0 =
              (Update ''demo1-service.init.js'' ''./demo1.db'' ''users'' strayDelta,
               UpdateK ''users'' strayDelta, Some \<lparr>ident = 0, content = seed\<rparr>)"
    using p5 by (simp add: strayUpdate_def)
  have p6: "fst (initComplete memWorld 0 sA) = Some TypeError
          \<and> lookupEntry (databaseRegistry (snd (initComplete memWorld 0 sA)))
               ''demo1-service.init.js'' ''./demo1.db'' = Some E
          \<and> callbacks (snd (initComplete memWorld 0 sA)) = []"
    using c6 [OF i0 n0 m] p5
    unfolding E_def by simp
  show ?thesis
    using h1 h2 h3 p1 n p2 l p3 f rs ra p4 p5 m p6
    unfolding strayUpdate_def E_def sA_def fresh_def
    by simp
qed

text \<open>
  C4. The claim: the update fails with a RecordNotFound error reported to the caller.
  On first use through the initializer of the example, which loads the file before it
  calls back, \<open>update\<close> for an identity no record has returns to its caller without
  an error and without a call of the host's callback; the TypeError is thrown later,
  inside the initializer's callback, and the host's callback is not called then
  either. The error is the one a collection that is not there gives.
\<close>

theorem update_missing_first_use_counterexample:
  "collGet memWorld seed ''users'' (getProp strayDelta ''$loki'') = Inr None
   \<and> fst (invoke memWorld (strayUpdate ''demo1-service.init.js'') freshService) = None
   \<and> callbacks (snd (invoke memWorld (strayUpdate ''demo1-service.init.js'') freshService)) = []
   \<and> fst (initComplete memWorld 0
            (snd (invoke memWorld (strayUpdate ''demo1-service.init.js'') freshService)))
       = Some TypeError
   \<and> callbacks (snd (initComplete memWorld 0
            (snd (invoke memWorld (strayUpdate ''demo1-service.init.js'') freshService)))) = []
   \<and> processUpdate memWorld ''nowhere'' strayDelta (Some seed) = (Inl TypeError, Some seed)"
  by code_simp

section \<open>Parameters that fail to parse, on each way through getDatabase\<close>




end
